theory Spec2Isabelle
  imports Main "HOL-Library.AList"
begin

section \<open>The BiDi Browser of puppeteer-core (common/bidi/Browser.ts)\<close>

text \<open>
  A shallow embedding of the class \<open>Browser\<close> of
  \<^verbatim>\<open>packages/puppeteer-core/src/common/bidi/Browser.ts\<close>.  A private field
  \<^verbatim>\<open>#x\<close> of the class is the record field \<open>priv_x\<close>; a method keeps its name
  (\<^verbatim>\<open>_closeContext\<close> is \<open>closeContext\<close>, \<^verbatim>\<open>_getTargetById\<close> is
  \<open>getTargetById\<close>).  A method that mutates the object returns the new object; a
  method that can throw returns the thrown error beside the object as the throw left it.
  Handlers run to completion in delivery order: an \<^verbatim>\<open>await\<close> inside a handler is
  not a point where another handler is interleaved.
\<close>

subsection \<open>Protocol data\<close>

text \<open>
  \<^verbatim>\<open>Bidi.BrowsingContext.Info\<close>, also the payload of a context-created event.  Its
  field \<^verbatim>\<open>children\<close> is never read by Browser.ts and is left out.  An absent or
  \<^verbatim>\<open>null\<close> parent is \<open>None\<close>.  The fields \<^verbatim>\<open>context\<close>, \<^verbatim>\<open>parent\<close> and
  \<^verbatim>\<open>url\<close> are \<open>ev_context\<close>, \<open>ev_parent\<close> and \<open>ev_url\<close>.
\<close>

record info =
  ev_context :: string
  ev_parent :: "string option"
  ev_url :: string

text \<open>\<^verbatim>\<open>Bidi.BrowsingContext.NavigationInfo\<close>: the fields Browser.ts reads.\<close>

record navigationInfo =
  nav_context :: string
  nav_url :: string

text \<open>The capabilities in the result of \<^verbatim>\<open>session.new\<close>.\<close>

record capabilities =
  cap_browserName :: "string option"
  cap_browserVersion :: "string option"

datatype error =
    ProtocolError string
  | MissingBrowserContexts
  | TargetNotFound
  | NoSuchBrowsingContext string
  | DefaultContextCannotBeClosed
  | CallbackError string

datatype command =
    SessionNew "bool option"
  | SessionSubscribe "string list"
  | BrowsingContextGetTree

record viewport =
  width :: nat
  height :: nat

subsection \<open>Collaborators: BrowsingContext, BrowserContext, Target\<close>

text \<open>
  Modelled from the spec: the class \<^verbatim>\<open>BrowsingContext\<close> (BrowsingContext.ts is not
  among the source files).  The spec's data model gives it an id, an optional parent id
  and the current URL, built from the event payload.
\<close>

record browsingContext =
  bc_id :: string
  bc_parent :: "string option"
  bc_url :: string

definition new_BrowsingContext :: "info \<Rightarrow> browsingContext" where
  "new_BrowsingContext event =
     \<lparr>bc_id = ev_context event, bc_parent = ev_parent event, bc_url = ev_url event\<rparr>"

text \<open>
  JavaScript's truthiness of \<^verbatim>\<open>context.parent\<close>, a string that may be absent:
  \<^verbatim>\<open>undefined\<close>, \<^verbatim>\<open>null\<close> and the empty string are falsy.  Browser.ts
  tests the parent this way in both places where it asks whether a context has one.
\<close>

definition truthy :: "string option \<Rightarrow> bool" where
  "truthy p = (case p of None \<Rightarrow> False | Some s \<Rightarrow> s \<noteq> [])"

text \<open>
  Modelled from the spec: the class \<^verbatim>\<open>BrowserContext\<close> (BrowserContext.ts is not
  among the source files), as far as Browser.ts constructs it.  \<open>ref\<close> is the identity
  of the object: \<^verbatim>\<open>_closeContext\<close> compares contexts with \<^verbatim>\<open>!==\<close>.
\<close>

record browserContext =
  ref :: nat
  ctx_defaultViewport :: "viewport option"
  isDefault :: bool

text \<open>
  Modelled from the spec: the classes \<^verbatim>\<open>BiDiPageTarget\<close> and \<^verbatim>\<open>BiDiTarget\<close>
  (Target.ts is not among the source files).  A target holds its Browser Context and
  a reference to its Browsing Context; the reference is the context's id, under which
  the connection's index holds the object.  A page target has a content object (a
  page), a nested target has none.
\<close>

datatype target =
    BiDiPageTarget browserContext string
  | BiDiTarget browserContext string

fun browserContext_of :: "target \<Rightarrow> browserContext" where
  "browserContext_of (BiDiPageTarget c i) = c"
| "browserContext_of (BiDiTarget c i) = c"

fun context_of :: "target \<Rightarrow> string" where
  "context_of (BiDiPageTarget c i) = i"
| "context_of (BiDiTarget c i) = i"

fun page :: "target \<Rightarrow> string option" where
  "page (BiDiPageTarget c i) = Some i"
| "page (BiDiTarget c i) = None"

fun is_page_target :: "target \<Rightarrow> bool" where
  "is_page_target (BiDiPageTarget c i) = True"
| "is_page_target (BiDiTarget c i) = False"

fun is_nested_target :: "target \<Rightarrow> bool" where
  "is_nested_target (BiDiPageTarget c i) = False"
| "is_nested_target (BiDiTarget c i) = True"

subsection \<open>Observable effects\<close>

datatype emittedEvent = TargetCreated | TargetDestroyed | TargetChanged

datatype browsingContextEmittedEvent = Created | Destroyed

text \<open>
  What the Browser does to the world outside its own fields, in order:
  an event emitted on the Browser, on a Browser Context (named by its \<open>ref\<close>), on a
  top-level Browsing Context (named by its id, with the context passed along), the
  close of a target's page, and a call of the external close callback.
\<close>

datatype effect =
    BrowserEmit emittedEvent target
  | BrowserDisconnected
  | BrowserContextEmit nat emittedEvent target
  | BrowsingContextEmit string browsingContextEmittedEvent browsingContext
  | PageClose string
  | CloseCallbackCall

subsection \<open>The Connection\<close>

text \<open>
  The bound functions of \<^verbatim>\<open>#connectionEventHandlers\<close>: four function objects, two
  of them bindings of \<^verbatim>\<open>#onContextNavigation\<close>.  \<open>Foreign\<close> stands for any listener
  that is not one of this Browser's.
\<close>

datatype handler =
    Bound_onContextCreated
  | Bound_onContextDestroyed
  | Bound_onContextNavigation_fragmentNavigated
  | Bound_onContextNavigation_navigationStarted
  | Foreign nat

text \<open>
  Modelled from the spec: the class \<^verbatim>\<open>Connection\<close> (Connection.ts is not among the
  source files), by the contract of the spec's section 6.  The state is the closed
  flag, the number of \<^verbatim>\<open>dispose()\<close> calls, the registered listeners, the index of
  Browsing Contexts by id, and the commands sent so far.  The remote end's answers to
  the three commands that Browser.ts sends are fields too: \<^verbatim>\<open>send\<close> is a round trip
  that may fail.
\<close>

record connection =
  closed :: bool
  disposed :: nat
  listeners :: "(string \<times> handler) list"
  browsingContexts :: "(string \<times> browsingContext) list"
  sent :: "command list"
  session_new :: "bool option \<Rightarrow> error + capabilities"
  session_subscribe :: "string list \<Rightarrow> error + unit"
  browsingContext_getTree :: "error + info list"

text \<open>Modelled from the spec: \<^verbatim>\<open>on\<close> registers the handler for the named event.\<close>

definition on :: "string \<Rightarrow> handler \<Rightarrow> connection \<Rightarrow> connection" where
  "on eventName h c = c\<lparr>listeners := listeners c @ [(eventName, h)]\<rparr>"

text \<open>
  Modelled from the spec: \<^verbatim>\<open>off\<close> takes one registration of the handler away, if
  there is one.
\<close>

definition off :: "string \<Rightarrow> handler \<Rightarrow> connection \<Rightarrow> connection" where
  "off eventName h c = c\<lparr>listeners := remove1 (eventName, h) (listeners c)\<rparr>"

text \<open>
  Modelled from the spec: \<^verbatim>\<open>dispose()\<close> tears the connection down: afterwards it
  reports closed.
\<close>

definition dispose :: "connection \<Rightarrow> connection" where
  "dispose c = c\<lparr>closed := True, disposed := Suc (disposed c)\<rparr>"

text \<open>
  Modelled from the spec: \<^verbatim>\<open>registerBrowsingContexts\<close> puts the context into the
  index, under its id; an entry of that id is replaced.
\<close>

definition registerBrowsingContexts :: "browsingContext \<Rightarrow> connection \<Rightarrow> connection" where
  "registerBrowsingContexts ctx c =
     c\<lparr>browsingContexts := AList.update (bc_id ctx) ctx (browsingContexts c)\<rparr>"

text \<open>Modelled from the spec: \<^verbatim>\<open>getBrowsingContext(id)\<close> fails if the id is unknown.\<close>

definition getBrowsingContext :: "connection \<Rightarrow> string \<Rightarrow> error + browsingContext" where
  "getBrowsingContext c i =
     (case map_of (browsingContexts c) i of
        None \<Rightarrow> Inl (NoSuchBrowsingContext i)
      | Some ctx \<Rightarrow> Inr ctx)"

text \<open>
  Modelled from the spec: \<^verbatim>\<open>getTopLevelContext(id)\<close> resolves the root ancestor of
  a context id: it follows the parent ids through the index to a context without parent.  There is no root
  ancestor, and the lookup fails, when an id on the way is unknown or when the chain
  of parents does not end; a chain longer than the index does not end.
\<close>

fun root_ancestor :: "nat \<Rightarrow> (string \<times> browsingContext) list \<Rightarrow> string \<Rightarrow> error + browsingContext" where
  "root_ancestor 0 idx i = Inl (NoSuchBrowsingContext i)"
| "root_ancestor (Suc n) idx i =
     (case map_of idx i of
        None \<Rightarrow> Inl (NoSuchBrowsingContext i)
      | Some ctx \<Rightarrow>
          (case bc_parent ctx of
             None \<Rightarrow> Inr ctx
           | Some p \<Rightarrow> root_ancestor n idx p))"

definition getTopLevelContext :: "connection \<Rightarrow> string \<Rightarrow> error + browsingContext" where
  "getTopLevelContext c i = root_ancestor (length (browsingContexts c)) (browsingContexts c) i"

text \<open>
  Modelled from the spec: \<^verbatim>\<open>send\<close>, for each of the three commands.  The command is
  recorded as sent, and the result is the remote end's answer: a value, or the error
  with which the call fails.
\<close>

definition send_session_new ::
  "connection \<Rightarrow> bool option \<Rightarrow> (error + capabilities) \<times> connection" where
  "send_session_new c acceptInsecureCerts =
     (session_new c acceptInsecureCerts, c\<lparr>sent := sent c @ [SessionNew acceptInsecureCerts]\<rparr>)"

definition send_session_subscribe ::
  "connection \<Rightarrow> string list \<Rightarrow> (error + unit) \<times> connection" where
  "send_session_subscribe c events =
     (session_subscribe c events, c\<lparr>sent := sent c @ [SessionSubscribe events]\<rparr>)"

definition send_browsingContext_getTree ::
  "connection \<Rightarrow> (error + info list) \<times> connection" where
  "send_browsingContext_getTree c =
     (browsingContext_getTree c, c\<lparr>sent := sent c @ [BrowsingContextGetTree]\<rparr>)"

subsection \<open>The Browser\<close>

text \<open>The external close callback: a call of it returns or throws.\<close>

datatype callback = Returns | Throws error

record options =
  opt_process :: "nat option"
  opt_closeCallback :: "callback option"
  opt_connection :: connection
  opt_defaultViewport :: "viewport option"
  opt_ignoreHTTPSErrors :: "bool option"

text \<open>
  The fields of the class.  \<^verbatim>\<open>#contexts\<close> is a JavaScript array, an object that
  \<^verbatim>\<open>browserContexts()\<close> hands out: \<open>priv_contexts\<close> is its address, and
  \<open>context_arrays\<close> is the store of the arrays of Browser Contexts by address.
  \<open>target_arrays\<close> is the store of the arrays that \<^verbatim>\<open>targets()\<close> makes, and
  \<open>next_ref\<close> the next unused address or object identity.  \<^verbatim>\<open>#targets\<close> is a
  \<^verbatim>\<open>Map\<close>, kept in insertion order: an association list, \<^verbatim>\<open>set\<close> being
  \<open>AList.update\<close> and \<^verbatim>\<open>delete\<close> being \<open>AList.delete\<close>.  \<open>trace\<close> collects the
  effects.
\<close>

record browser =
  priv_browserName :: string
  priv_browserVersion :: string
  priv_process :: "nat option"
  priv_closeCallback :: "callback option"
  priv_connection :: connection
  priv_defaultViewport :: "viewport option"
  priv_defaultContext :: browserContext
  priv_targets :: "(string \<times> target) list"
  priv_contexts :: nat
  context_arrays :: "nat \<Rightarrow> browserContext list"
  target_arrays :: "nat \<Rightarrow> target list"
  next_ref :: nat
  trace :: "effect list"

definition subscribeModules :: "string list" where
  "subscribeModules = [''browsingContext'', ''network'', ''log'']"

definition subscribeCdpEvents :: "string list" where
  "subscribeCdpEvents =
     [''cdp.Debugger.scriptParsed'',
      ''cdp.CSS.styleSheetAdded'',
      ''cdp.Runtime.executionContextsCleared'',
      ''cdp.Tracing.tracingComplete'',
      ''cdp.Network.requestWillBeSent'',
      ''cdp.Debugger.scriptParsed'']"

definition connectionEventHandlers :: "(string \<times> handler) list" where
  "connectionEventHandlers =
     [(''browsingContext.contextCreated'', Bound_onContextCreated),
      (''browsingContext.contextDestroyed'', Bound_onContextDestroyed),
      (''browsingContext.fragmentNavigated'', Bound_onContextNavigation_fragmentNavigated),
      (''browsingContext.navigationStarted'', Bound_onContextNavigation_navigationStarted)]"

text \<open>
  The constructor.  The field initialisers run first (the empty \<^verbatim>\<open>#contexts\<close> array
  is the object at address 0), then the body makes the default context (object 1),
  pushes it and registers the four handlers in the order of the map.
\<close>

definition Browser_constructor :: "options \<Rightarrow> string \<Rightarrow> string \<Rightarrow> browser" where
  "Browser_constructor opts browserName browserVersion =
     (let defaultContext =
            \<lparr>ref = 1, ctx_defaultViewport = opt_defaultViewport opts, isDefault = True\<rparr>
      in \<lparr>priv_browserName = browserName,
          priv_browserVersion = browserVersion,
          priv_process = opt_process opts,
          priv_closeCallback = opt_closeCallback opts,
          priv_connection =
            foldl (\<lambda>c (eventName, h). on eventName h c) (opt_connection opts)
              connectionEventHandlers,
          priv_defaultViewport = opt_defaultViewport opts,
          priv_defaultContext = defaultContext,
          priv_targets = [],
          priv_contexts = 0,
          context_arrays = (\<lambda>a. [])(0 := [defaultContext]),
          target_arrays = (\<lambda>a. []),
          next_ref = 2,
          trace = []\<rparr>)"

text \<open>
  The listener that the constructor puts on the process, when there is one.  It runs
  when the process closes.
\<close>

definition process_close :: "browser \<Rightarrow> browser" where
  "process_close b =
     (case priv_process b of
        None \<Rightarrow> b
      | Some p \<Rightarrow>
          b\<lparr>priv_connection := dispose (priv_connection b),
            trace := trace b @ [BrowserDisconnected]\<rparr>)"

text \<open>\<^verbatim>\<open>browserContexts()\<close> returns \<^verbatim>\<open>this.#contexts\<close>: the address of the array.\<close>

definition browserContexts :: "browser \<Rightarrow> nat" where
  "browserContexts b = priv_contexts b"

text \<open>The Browser Context collection: what the array at that address holds.\<close>

definition contexts :: "browser \<Rightarrow> browserContext list" where
  "contexts b = context_arrays b (priv_contexts b)"

text \<open>\<^verbatim>\<open>Array.prototype.at(-1)\<close>: the last element, \<^verbatim>\<open>undefined\<close> on an empty array.\<close>

definition at_last :: "'a list \<Rightarrow> 'a option" where
  "at_last xs = (if xs = [] then None else Some (last xs))"

definition onContextNavigation :: "browser \<Rightarrow> navigationInfo \<Rightarrow> error option \<times> browser" where
  "onContextNavigation b event =
     (case getBrowsingContext (priv_connection b) (nav_context event) of
        Inl err \<Rightarrow> (Some err, b)
      | Inr ctx \<Rightarrow>
          (let c = priv_connection b;
               b1 = b\<lparr>priv_connection :=
                      c\<lparr>browsingContexts :=
                          AList.update (nav_context event) (ctx\<lparr>bc_url := nav_url event\<rparr>)
                            (browsingContexts c)\<rparr>\<rparr>
           in case map_of (priv_targets b1) (nav_context event) of
                None \<Rightarrow> (None, b1)
              | Some target \<Rightarrow>
                  (None,
                   b1\<lparr>trace := trace b1 @
                        [BrowserEmit TargetChanged target,
                         BrowserContextEmit (ref (browserContext_of target)) TargetChanged
                           target]\<rparr>)))"

definition onContextCreated :: "browser \<Rightarrow> info \<Rightarrow> error option \<times> browser" where
  "onContextCreated b event =
     (let ctx = new_BrowsingContext event;
          b1 = b\<lparr>priv_connection := registerBrowsingContexts ctx (priv_connection b)\<rparr>
      in case at_last (context_arrays b1 (browserContexts b1)) of
           None \<Rightarrow> (Some MissingBrowserContexts, b1)
         | Some browserContext \<Rightarrow>
             (let target =
                    (if \<not> truthy (bc_parent ctx)
                     then BiDiPageTarget browserContext (bc_id ctx)
                     else BiDiTarget browserContext (bc_id ctx));
                  b2 = b1\<lparr>priv_targets := AList.update (ev_context event) target (priv_targets b1),
                          trace := trace b1 @
                            [BrowserEmit TargetCreated target,
                             BrowserContextEmit (ref (browserContext_of target)) TargetCreated
                               target]\<rparr>
              in case bc_parent ctx of
                   None \<Rightarrow> (None, b2)
                 | Some p \<Rightarrow>
                     if p = [] then (None, b2)
                     else
                       (case getTopLevelContext (priv_connection b2) p of
                          Inl err \<Rightarrow> (Some err, b2)
                        | Inr topLevel \<Rightarrow>
                            (None,
                             b2\<lparr>trace := trace b2 @
                                  [BrowsingContextEmit (bc_id topLevel) Created ctx]\<rparr>))))"

text \<open>The loop of \<^verbatim>\<open>#getTree\<close>: a throw of the handler ends it.\<close>

fun onContextCreated_each :: "browser \<Rightarrow> info list \<Rightarrow> error option \<times> browser" where
  "onContextCreated_each b [] = (None, b)"
| "onContextCreated_each b (ctx # ctxs) =
     (case onContextCreated b ctx of
        (Some err, b') \<Rightarrow> (Some err, b')
      | (None, b') \<Rightarrow> onContextCreated_each b' ctxs)"

definition getTree :: "browser \<Rightarrow> error option \<times> browser" where
  "getTree b =
     (case send_browsingContext_getTree (priv_connection b) of
        (Inl err, c) \<Rightarrow> (Some err, b\<lparr>priv_connection := c\<rparr>)
      | (Inr ctxs, c) \<Rightarrow> onContextCreated_each (b\<lparr>priv_connection := c\<rparr>) ctxs)"

text \<open>
  \<^verbatim>\<open>#onContextDestroyed\<close>.  A failed lookup throws before anything is emitted or
  changed.  The page of the target, if it has one, is closed; a failure of that close
  is caught and logged.
\<close>

definition onContextDestroyed :: "browser \<Rightarrow> string \<Rightarrow> error option \<times> browser" where
  "onContextDestroyed b event_context =
     (case getBrowsingContext (priv_connection b) event_context of
        Inl err \<Rightarrow> (Some err, b)
      | Inr ctx \<Rightarrow>
          (case getTopLevelContext (priv_connection b) event_context of
             Inl err \<Rightarrow> (Some err, b)
           | Inr topLevelContext \<Rightarrow>
               (let b1 = b\<lparr>trace := trace b @
                             [BrowsingContextEmit (bc_id topLevelContext) Destroyed ctx]\<rparr>;
                    target = map_of (priv_targets b1) event_context;
                    b2 = (case Option.bind target page of
                            None \<Rightarrow> b1
                          | Some pg \<Rightarrow> b1\<lparr>trace := trace b1 @ [PageClose pg]\<rparr>);
                    b3 = b2\<lparr>priv_targets := AList.delete event_context (priv_targets b2)\<rparr>
                in case target of
                     None \<Rightarrow> (None, b3)
                   | Some t \<Rightarrow>
                       (None,
                        b3\<lparr>trace := trace b3 @
                             [BrowserEmit TargetDestroyed t,
                              BrowserContextEmit (ref (browserContext_of t)) TargetDestroyed
                                t]\<rparr>))))"

definition connection :: "browser \<Rightarrow> connection" where
  "connection b = priv_connection b"

definition close :: "browser \<Rightarrow> error option \<times> browser" where
  "close b =
     (let b1 = b\<lparr>priv_connection :=
                  foldl (\<lambda>c (eventName, h). off eventName h c) (priv_connection b)
                    connectionEventHandlers\<rparr>
      in if closed (priv_connection b1) then (None, b1)
         else
           (let b2 = b1\<lparr>priv_connection := dispose (priv_connection b1)\<rparr>
            in case priv_closeCallback b2 of
                 None \<Rightarrow> (None, b2)
               | Some cb \<Rightarrow>
                   (case cb of Returns \<Rightarrow> None | Throws err \<Rightarrow> Some err,
                    b2\<lparr>trace := trace b2 @ [CloseCallbackCall]\<rparr>)))"

definition isConnected :: "browser \<Rightarrow> bool" where
  "isConnected b = (\<not> closed (priv_connection b))"

definition createIncognitoBrowserContext :: "browser \<Rightarrow> browserContext \<times> browser" where
  "createIncognitoBrowserContext b =
     (let ctx = \<lparr>ref = next_ref b, ctx_defaultViewport = priv_defaultViewport b,
                 isDefault = False\<rparr>
      in (ctx,
          b\<lparr>context_arrays :=
              (context_arrays b)(priv_contexts b := context_arrays b (priv_contexts b) @ [ctx]),
            next_ref := Suc (next_ref b)\<rparr>))"

definition version :: "browser \<Rightarrow> string" where
  "version b = priv_browserName b @ ''/'' @ priv_browserVersion b"

text \<open>
  Modelled from the spec: \<^verbatim>\<open>BrowserContext.targets()\<close> (BrowserContext.ts is not
  among the source files): the targets of the Browser that this context owns.
\<close>

definition browserContext_targets :: "browser \<Rightarrow> browserContext \<Rightarrow> target list" where
  "browserContext_targets b browserContext =
     filter (\<lambda>t. ref (browserContext_of t) = ref browserContext) (map snd (priv_targets b))"

text \<open>
  \<^verbatim>\<open>_closeContext\<close>.  \<^verbatim>\<open>filter\<close> makes a new array, which becomes
  \<^verbatim>\<open>#contexts\<close>; the old array is left as it was.  Then the page of every target
  of the context is closed, failures being caught and logged.
\<close>

definition closeContext :: "browser \<Rightarrow> browserContext \<Rightarrow> browser" where
  "closeContext b browserContext =
     (let b1 = b\<lparr>context_arrays :=
                  (context_arrays b)
                    (next_ref b :=
                       filter (\<lambda>c. ref c \<noteq> ref browserContext)
                         (context_arrays b (priv_contexts b))),
                priv_contexts := next_ref b,
                next_ref := Suc (next_ref b)\<rparr>
      in b1\<lparr>trace := trace b1 @
              map PageClose (List.map_filter page (browserContext_targets b1 browserContext))\<rparr>)"

text \<open>
  Modelled from the spec: \<^verbatim>\<open>BrowserContext.close()\<close> (BrowserContext.ts is not among
  the source files), the close operation that a caller directs at a Browser Context.
  The spec has a Browser Context removed by a client-initiated close, which the
  Browser's internal context-close helper carries out for the owner of the context,
  and has the default context never removable: callers must never be able to close
  it.  The constructor marks that context with \<^verbatim>\<open>isDefault: true\<close>.  So the close of
  a context marked as the default fails and changes nothing, and the close of another
  context calls \<^verbatim>\<open>_closeContext\<close> of its Browser.
\<close>

definition BrowserContext_close :: "browser \<Rightarrow> browserContext \<Rightarrow> error option \<times> browser" where
  "BrowserContext_close b browserContext =
     (if isDefault browserContext then (Some DefaultContextCannotBeClosed, b)
      else (None, closeContext b browserContext))"

definition defaultBrowserContext :: "browser \<Rightarrow> browserContext" where
  "defaultBrowserContext b = priv_defaultContext b"

text \<open>
  \<^verbatim>\<open>targets()\<close> makes a new array of the values of the map, in insertion order, and
  returns its address.
\<close>

definition targets :: "browser \<Rightarrow> nat \<times> browser" where
  "targets b =
     (next_ref b,
      b\<lparr>target_arrays := (target_arrays b)(next_ref b := map snd (priv_targets b)),
        next_ref := Suc (next_ref b)\<rparr>)"

definition getTargetById :: "browser \<Rightarrow> string \<Rightarrow> error + target" where
  "getTargetById b i =
     (case map_of (priv_targets b) i of
        None \<Rightarrow> Inl TargetNotFound
      | Some target \<Rightarrow> Inr target)"

text \<open>
  JavaScript's \<^verbatim>\<open>String.prototype.includes\<close> (\<open>includes_str\<close>), and
  \<^verbatim>\<open>toLocaleLowerCase\<close> on the letters A to Z, in a locale that lower-cases them as ASCII does; every other
  character is left as it is.
\<close>

fun includes_str :: "string \<Rightarrow> string \<Rightarrow> bool" where
  "includes_str [] p = (p = [])"
| "includes_str (c # cs) p = (take (length p) (c # cs) = p \<or> includes_str cs p)"

definition lower_char :: "char \<Rightarrow> char" where
  "lower_char c =
     (case map_of (zip ''ABCDEFGHIJKLMNOPQRSTUVWXYZ'' ''abcdefghijklmnopqrstuvwxyz'') c of
        None \<Rightarrow> c
      | Some l \<Rightarrow> l)"

definition toLocaleLowerCase :: "string \<Rightarrow> string" where
  "toLocaleLowerCase s = map lower_char s"

text \<open>
  The values of the locals \<^verbatim>\<open>browserName\<close> and \<^verbatim>\<open>browserVersion\<close> of
  \<^verbatim>\<open>Browser.create\<close> after the attempt at \<^verbatim>\<open>session.new\<close>: the initial empty
  string when \<^verbatim>\<open>session.new\<close> failed, else the capability, \<^verbatim>\<open>?? ''\<close> replacing an absent one.
\<close>

definition negotiated_browserName :: "error + capabilities \<Rightarrow> string" where
  "negotiated_browserName r =
     (case r of
        Inl err \<Rightarrow> []
      | Inr caps \<Rightarrow> (case cap_browserName caps of None \<Rightarrow> [] | Some n \<Rightarrow> n))"

definition negotiated_browserVersion :: "error + capabilities \<Rightarrow> string" where
  "negotiated_browserVersion r =
     (case r of
        Inl err \<Rightarrow> []
      | Inr caps \<Rightarrow> (case cap_browserVersion caps of None \<Rightarrow> [] | Some v \<Rightarrow> v))"

text \<open>The \<^verbatim>\<open>events\<close> that \<^verbatim>\<open>Browser.create\<close> subscribes to.\<close>

definition subscription :: "string \<Rightarrow> string list" where
  "subscription browserName =
     (if includes_str (toLocaleLowerCase browserName) ''firefox''
      then subscribeModules
      else subscribeModules @ subscribeCdpEvents)"

text \<open>
  \<^verbatim>\<open>Browser.create\<close>.  A failure of \<^verbatim>\<open>session.new\<close> is caught and logged.  A
  failure of a later step is thrown to the caller: the result is then the error, with
  the connection as the attempt left it, and no Browser.
\<close>

definition create :: "options \<Rightarrow> (error \<times> connection) + browser" where
  "create opts =
     (case send_session_new (opt_connection opts) (opt_ignoreHTTPSErrors opts) of
        (r, c1) \<Rightarrow>
          (let browserName = negotiated_browserName r;
               browserVersion = negotiated_browserVersion r
           in case send_session_subscribe c1 (subscription browserName) of
                (Inl err, c2) \<Rightarrow> Inl (err, c2)
              | (Inr u, c2) \<Rightarrow>
                  (let b = Browser_constructor (opts\<lparr>opt_connection := c2\<rparr>) browserName
                             browserVersion
                   in case getTree b of
                        (Some err, b') \<Rightarrow> Inl (err, priv_connection b')
                      | (None, b') \<Rightarrow> Inr b')))"

subsection \<open>Events, callers and the notions of the specification\<close>

text \<open>The connection that a call of \<^verbatim>\<open>Browser.create\<close> leaves behind.\<close>

definition connection_after :: "(error \<times> connection) + browser \<Rightarrow> connection" where
  "connection_after r = (case r of Inl (err, c) \<Rightarrow> c | Inr b \<Rightarrow> priv_connection b)"

text \<open>
  The specification's test on the engine name: the name contains the word, letter case
  ignored.
\<close>

definition contains_ignoring_case :: "string \<Rightarrow> string \<Rightarrow> bool" where
  "contains_ignoring_case s p =
     (\<exists>u v w. s = u @ v @ w \<and> map lower_char v = map lower_char p)"

text \<open>
  The lifecycle events that the connection delivers to the Browser.  Delivering one
  runs its handler; the Browser goes on in the state in which the handler left it,
  whether it returned or threw.
\<close>

datatype event = ContextCreated info | ContextDestroyed string

fun event_id :: "event \<Rightarrow> string" where
  "event_id (ContextCreated e) = ev_context e"
| "event_id (ContextDestroyed i) = i"

fun handle :: "browser \<Rightarrow> event \<Rightarrow> error option \<times> browser" where
  "handle b (ContextCreated e) = onContextCreated b e"
| "handle b (ContextDestroyed i) = onContextDestroyed b i"

definition deliver :: "browser \<Rightarrow> event \<Rightarrow> browser" where
  "deliver b ev = snd (handle b ev)"

definition deliver_all :: "browser \<Rightarrow> event list \<Rightarrow> browser" where
  "deliver_all b evs = foldl deliver b evs"

text \<open>
  The specification's live ids after a sequence of events: the ids whose latest event
  is a context-created.  An id whose latest event is a context-destroyed is destroyed.
\<close>

definition live_ids :: "event list \<Rightarrow> string set" where
  "live_ids evs =
     {i. \<exists>e. at_last (filter (\<lambda>ev. event_id ev = i) evs) = Some (ContextCreated e)}"

text \<open>The same set, computed event by event from the ids registered at the start.\<close>

fun ids_after :: "string set \<Rightarrow> event list \<Rightarrow> string set" where
  "ids_after K [] = K"
| "ids_after K (ContextCreated e # evs) = ids_after (insert (ev_context e) K) evs"
| "ids_after K (ContextDestroyed i # evs) = ids_after (K - {i}) evs"

text \<open>
  A sequence of events in which no context-destroyed handler throws on an id that has
  a registered Target: the connection resolves the context and its top-level ancestor,
  as it does when every context is created after its parent.
\<close>

fun destroys_resolve :: "browser \<Rightarrow> event list \<Rightarrow> bool" where
  "destroys_resolve b [] = True"
| "destroys_resolve b (ev # evs) =
     ((case ev of
         ContextCreated e \<Rightarrow> True
       | ContextDestroyed i \<Rightarrow>
           map_of (priv_targets b) i = None \<or> fst (onContextDestroyed b i) = None)
      \<and> destroys_resolve (deliver b ev) evs)"

text \<open>
  A sequence of events as the protocol is trusted to deliver them: every context is
  created once, and a nested context after its parent.  \<open>K\<close> is the set of the ids
  created so far.
\<close>

fun parents_first :: "string set \<Rightarrow> event list \<Rightarrow> bool" where
  "parents_first K [] = True"
| "parents_first K (ContextCreated e # evs) =
     (ev_context e \<notin> K
      \<and> (case ev_parent e of None \<Rightarrow> True | Some p \<Rightarrow> p \<in> K)
      \<and> parents_first (insert (ev_context e) K) evs)"
| "parents_first K (ContextDestroyed i # evs) = parents_first K evs"

text \<open>
  An index in which every entry is stored once and has a root ancestor that
  \<open>getTopLevelContext\<close> finds.
\<close>

definition rooted :: "(string \<times> browsingContext) list \<Rightarrow> bool" where
  "rooted idx =
     (distinct (map fst idx)
      \<and> (\<forall>p \<in> set idx. \<exists>t. root_ancestor (length idx) idx (fst p) = Inr t))"

text \<open>
  A caller that holds an array can change its content (\<^verbatim>\<open>push\<close>, \<^verbatim>\<open>pop\<close>,
  \<^verbatim>\<open>splice\<close>, an assignment to an index or to \<^verbatim>\<open>length\<close>): the array at that
  address then holds what the caller left there.
\<close>

definition mutate_target_array :: "nat \<Rightarrow> target list \<Rightarrow> browser \<Rightarrow> browser" where
  "mutate_target_array a xs b = b\<lparr>target_arrays := (target_arrays b)(a := xs)\<rparr>"

definition mutate_context_array :: "nat \<Rightarrow> browserContext list \<Rightarrow> browser \<Rightarrow> browser" where
  "mutate_context_array a xs b = b\<lparr>context_arrays := (context_arrays b)(a := xs)\<rparr>"

text \<open>
  What can happen to a Browser after its construction: the connection delivers an
  event, the process closes, or a caller calls a method or changes an array that was
  handed out to it.  \<open>BrowserContextClose\<close> is the close operation of a Browser
  Context; \<open>CloseContext\<close> is a direct call of the internal helper.
\<close>

datatype operation =
    Deliver event
  | Navigate navigationInfo
  | ProcessClose
  | Close
  | CreateIncognitoBrowserContext
  | CloseContext browserContext
  | BrowserContextClose browserContext
  | Targets
  | MutateTargetArray nat "target list"
  | MutateContextArray nat "browserContext list"

fun perform :: "browser \<Rightarrow> operation \<Rightarrow> browser" where
  "perform b (Deliver ev) = deliver b ev"
| "perform b (Navigate event) = snd (onContextNavigation b event)"
| "perform b ProcessClose = process_close b"
| "perform b Close = snd (close b)"
| "perform b CreateIncognitoBrowserContext = snd (createIncognitoBrowserContext b)"
| "perform b (CloseContext browserContext) = closeContext b browserContext"
| "perform b (BrowserContextClose browserContext) = snd (BrowserContext_close b browserContext)"
| "perform b Targets = snd (targets b)"
| "perform b (MutateTargetArray a xs) = mutate_target_array a xs b"
| "perform b (MutateContextArray a xs) = mutate_context_array a xs b"

definition perform_all :: "browser \<Rightarrow> operation list \<Rightarrow> browser" where
  "perform_all b ops = foldl perform b ops"

text \<open>
  The operations in which the internal helper \<^verbatim>\<open>_closeContext\<close> is not called on
  the context \<open>d\<close> from outside \<^verbatim>\<open>BrowserContext.close()\<close>, and no caller changes an
  array of Browser Contexts.  A close operation may be directed at any context, \<open>d\<close>
  itself or another object: \<open>ref\<close> is the identity of the object, so a context other
  than \<open>d\<close> has another \<open>ref\<close>.
\<close>

fun spares :: "browserContext \<Rightarrow> operation \<Rightarrow> bool" where
  "spares d (CloseContext browserContext) = (ref browserContext \<noteq> ref d)"
| "spares d (BrowserContextClose browserContext) =
     (browserContext = d \<or> ref browserContext \<noteq> ref d)"
| "spares d (MutateContextArray a xs) = False"
| "spares d op = True"

text \<open>Each handler of the Browser is registered on the connection at most once.\<close>

definition registered_at_most_once :: "connection \<Rightarrow> bool" where
  "registered_at_most_once c =
     (\<forall>eh \<in> set connectionEventHandlers. count_list (listeners c) eh \<le> 1)"

subsection \<open>Concrete sessions\<close>

text \<open>
  A connection on which nothing has happened yet, to a remote end that answers
  \<^verbatim>\<open>session.new\<close> with the given result, accepts every subscription and reports
  the given tree.
\<close>

definition fresh_connection :: "error + capabilities \<Rightarrow> error + info list \<Rightarrow> connection" where
  "fresh_connection new_result tree =
     \<lparr>closed = False, disposed = 0, listeners = [], browsingContexts = [], sent = [],
      session_new = (\<lambda>acceptInsecureCerts. new_result),
      session_subscribe = (\<lambda>events. Inr ()),
      browsingContext_getTree = tree\<rparr>"

definition options_for :: "connection \<Rightarrow> options" where
  "options_for c =
     \<lparr>opt_process = None, opt_closeCallback = Some Returns, opt_connection = c,
      opt_defaultViewport = None, opt_ignoreHTTPSErrors = None\<rparr>"

definition page_info :: "string \<Rightarrow> info" where
  "page_info i = \<lparr>ev_context = i, ev_parent = None, ev_url = ''about:blank''\<rparr>"

definition frame_info :: "string \<Rightarrow> string \<Rightarrow> info" where
  "frame_info i p = \<lparr>ev_context = i, ev_parent = Some p, ev_url = ''about:blank''\<rparr>"

definition firefox_capabilities :: capabilities where
  "firefox_capabilities =
     \<lparr>cap_browserName = Some ''Firefox'', cap_browserVersion = Some ''115.0''\<rparr>"

definition chrome_capabilities :: capabilities where
  "chrome_capabilities =
     \<lparr>cap_browserName = Some ''Chrome'', cap_browserVersion = Some ''115.0''\<rparr>"

text \<open>A Browser as the constructor makes it, on a fresh connection.\<close>

definition new_browser :: browser where
  "new_browser =
     Browser_constructor
       (options_for (fresh_connection (Inl (ProtocolError ''unknown command'')) (Inr [])))
       [] []"

text \<open>
  A page is created, a frame in it is created and destroyed, and a context that was
  never created is destroyed.
\<close>

definition page_and_frame :: "event list" where
  "page_and_frame =
     [ContextCreated (page_info ''page''),
      ContextCreated (frame_info ''frame'' ''page''),
      ContextDestroyed ''frame'',
      ContextDestroyed ''ghost'']"

text \<open>A frame is created before its page, and destroyed.\<close>

definition frame_before_page :: "event list" where
  "frame_before_page =
     [ContextCreated (frame_info ''frame'' ''page''), ContextDestroyed ''frame'']"

text \<open>A Browser in which a page was created and destroyed.\<close>

definition browser_after_page :: browser where
  "browser_after_page =
     deliver_all new_browser [ContextCreated (page_info ''page''), ContextDestroyed ''page'']"

section \<open>Properties\<close>

subsection \<open>The handlers and the registry\<close>

lemma at_last_filter_Cons:
  "at_last (filter P (x # xs)) =
     (case at_last (filter P xs) of
        None \<Rightarrow> (if P x then Some x else None)
      | Some y \<Rightarrow> Some y)"
  by (simp add: at_last_def)

lemma ids_after_latest:
  "ids_after K evs =
     {i. case at_last (filter (\<lambda>ev. event_id ev = i) evs) of
           None \<Rightarrow> i \<in> K
         | Some (ContextCreated e) \<Rightarrow> True
         | Some (ContextDestroyed j) \<Rightarrow> False}"
proof (induction K evs rule: ids_after.induct)
  case (1 K)
  then show ?case by (simp add: at_last_def)
next
  case (2 K e evs)
  show ?case
    unfolding ids_after.simps 2 at_last_filter_Cons
    by (auto split: option.splits event.splits)
next
  case (3 K i evs)
  show ?case
    unfolding ids_after.simps 3 at_last_filter_Cons
    by (auto split: option.splits event.splits)
qed

lemma ids_after_live: "ids_after {} evs = live_ids evs"
proof -
  have h: "(case x of None \<Rightarrow> i \<in> {} | Some (ContextCreated e) \<Rightarrow> True
          | Some (ContextDestroyed j) \<Rightarrow> False) = (\<exists>e. x = Some (ContextCreated e))"
    for x :: "event option" and i :: string
    by (cases x) (auto split: event.splits)
  show ?thesis
    unfolding ids_after_latest live_ids_def h ..
qed

lemma onContextCreated_contexts:
  "contexts (snd (onContextCreated b e)) = contexts b"
  by (simp add: onContextCreated_def Let_def contexts_def browserContexts_def
      split: option.splits sum.splits)

lemma onContextDestroyed_contexts:
  "contexts (snd (onContextDestroyed b i)) = contexts b"
  by (simp add: onContextDestroyed_def Let_def contexts_def
      split: option.splits sum.splits)

lemma deliver_contexts: "contexts (deliver b ev) = contexts b"
  by (cases ev) (simp_all add: deliver_def onContextCreated_contexts onContextDestroyed_contexts)

lemma onContextCreated_targets:
  assumes "contexts b \<noteq> []"
  shows "\<exists>t. priv_targets (snd (onContextCreated b e)) =
           AList.update (ev_context e) t (priv_targets b)"
  using assms
  by (auto simp add: onContextCreated_def Let_def contexts_def browserContexts_def at_last_def
      split: option.splits sum.splits)

lemma onContextDestroyed_targets:
  "priv_targets (snd (onContextDestroyed b i)) =
     (if fst (onContextDestroyed b i) = None then AList.delete i (priv_targets b)
      else priv_targets b)"
  by (simp add: onContextDestroyed_def Let_def split: option.splits sum.splits)

lemma keys_delete: "fst ` set (AList.delete k al) = fst ` set al - {k}"
proof -
  have "set (map fst (AList.delete k al)) = set (map fst al) - {k}"
    by (simp only: delete_keys set_removeAll)
  then show ?thesis by simp
qed

lemma deliver_created_keys:
  assumes "contexts b \<noteq> []"
  shows "fst ` set (priv_targets (deliver b (ContextCreated e))) =
           insert (ev_context e) (fst ` set (priv_targets b))"
proof -
  obtain t where "priv_targets (snd (onContextCreated b e)) =
           AList.update (ev_context e) t (priv_targets b)"
    using onContextCreated_targets [OF assms, of e] by blast
  then show ?thesis by (simp add: deliver_def dom_update)
qed

lemma deliver_destroyed_keys:
  assumes "map_of (priv_targets b) i = None \<or> fst (onContextDestroyed b i) = None"
  shows "fst ` set (priv_targets (deliver b (ContextDestroyed i))) =
           fst ` set (priv_targets b) - {i}"
proof (cases "map_of (priv_targets b) i = None")
  case True
  then have "i \<notin> fst ` set (priv_targets b)" by (simp add: map_of_eq_None_iff)
  then show ?thesis by (simp add: deliver_def onContextDestroyed_targets)
next
  case False
  then have "fst (onContextDestroyed b i) = None" using assms by auto
  then show ?thesis by (simp add: deliver_def onContextDestroyed_targets keys_delete)
qed

lemma deliver_distinct:
  assumes "contexts b \<noteq> []" and "distinct (map fst (priv_targets b))"
  shows "distinct (map fst (priv_targets (deliver b ev)))"
proof (cases ev)
  case (ContextCreated e)
  then show ?thesis
    using onContextCreated_targets [OF assms(1), of e] assms(2)
    by (auto simp add: deliver_def distinct_update)
next
  case (ContextDestroyed i)
  then show ?thesis using assms(2)
    by (simp add: deliver_def onContextDestroyed_targets distinct_delete)
qed

lemma deliver_all_registry:
  assumes "contexts b \<noteq> []" and "distinct (map fst (priv_targets b))"
    and "destroys_resolve b evs"
  shows "distinct (map fst (priv_targets (deliver_all b evs)))
         \<and> fst ` set (priv_targets (deliver_all b evs)) =
             ids_after (fst ` set (priv_targets b)) evs"
  using assms
proof (induction evs arbitrary: b)
  case Nil
  then show ?case by (simp add: deliver_all_def)
next
  case (Cons ev evs)
  have c: "contexts (deliver b ev) \<noteq> []" using Cons.prems(1) by (simp add: deliver_contexts)
  have d: "distinct (map fst (priv_targets (deliver b ev)))"
    using Cons.prems(1,2) by (rule deliver_distinct)
  have r: "destroys_resolve (deliver b ev) evs" using Cons.prems(3) by simp
  have IH: "distinct (map fst (priv_targets (deliver_all (deliver b ev) evs)))
         \<and> fst ` set (priv_targets (deliver_all (deliver b ev) evs)) =
             ids_after (fst ` set (priv_targets (deliver b ev))) evs"
    using Cons.IH [OF c d r] .
  have step: "deliver_all b (x # evs) = deliver_all (deliver b x) evs" for x
    by (simp add: deliver_all_def)
  show ?case
  proof (cases ev)
    case (ContextCreated e)
    then have "fst ` set (priv_targets (deliver b ev)) =
        insert (ev_context e) (fst ` set (priv_targets b))"
      using deliver_created_keys [OF Cons.prems(1), of e] by simp
    then show ?thesis using IH ContextCreated by (simp add: step)
  next
    case (ContextDestroyed i)
    then have "map_of (priv_targets b) i = None \<or> fst (onContextDestroyed b i) = None"
      using Cons.prems(3) by simp
    then have "fst ` set (priv_targets (deliver b ev)) = fst ` set (priv_targets b) - {i}"
      using deliver_destroyed_keys [of b i] ContextDestroyed by simp
    then show ?thesis using IH ContextDestroyed by (simp add: step)
  qed
qed

subsection \<open>Events in the order of the protocol\<close>

text \<open>
  When every context is created once and after its parent, every lookup of a
  context-destroyed handler succeeds: the index then holds, for each id, a chain of
  parents that ends in a top-level context, within the fuel of \<open>getTopLevelContext\<close>.
\<close>

lemma root_ancestor_more_fuel:
  "root_ancestor n idx i = Inr t \<Longrightarrow> root_ancestor (Suc n) idx i = Inr t"
proof (induction n arbitrary: i)
  case 0
  then show ?case by simp
next
  case (Suc n)
  show ?case
  proof (cases "map_of idx i")
    case None
    then show ?thesis using Suc.prems by simp
  next
    case (Some c)
    show ?thesis
    proof (cases "bc_parent c")
      case None
      then show ?thesis using Suc.prems Some by simp
    next
      case (Some p)
      then have "root_ancestor n idx p = Inr t" using Suc.prems \<open>map_of idx i = Some c\<close> by simp
      then have "root_ancestor (Suc n) idx p = Inr t" by (rule Suc.IH)
      then show ?thesis using Some \<open>map_of idx i = Some c\<close> by simp
    qed
  qed
qed

lemma root_ancestor_new_entry:
  assumes "map_of idx x = None"
  shows "root_ancestor n idx i = Inr t \<Longrightarrow> root_ancestor n (AList.update x c idx) i = Inr t"
proof (induction n arbitrary: i)
  case 0
  then show ?case by simp
next
  case (Suc n)
  show ?case
  proof (cases "map_of idx i")
    case None
    then show ?thesis using Suc.prems by simp
  next
    case (Some ci)
    then have ix: "i \<noteq> x" using assms by auto
    then have m: "map_of (AList.update x c idx) i = Some ci"
      using Some by (simp add: update_conv')
    show ?thesis
    proof (cases "bc_parent ci")
      case None
      then show ?thesis using Suc.prems Some m by simp
    next
      case (Some p)
      then have "root_ancestor n idx p = Inr t" using Suc.prems \<open>map_of idx i = Some ci\<close> by simp
      then have "root_ancestor n (AList.update x c idx) p = Inr t" by (rule Suc.IH)
      then show ?thesis using Some m by simp
    qed
  qed
qed

lemma update_new_key: "k \<notin> fst ` set al \<Longrightarrow> AList.update k v al = al @ [(k, v)]"
  by (induction al) auto

lemma rooted_resolves:
  assumes "rooted idx" and "i \<in> fst ` set idx"
  shows "\<exists>t. root_ancestor (length idx) idx i = Inr t"
proof -
  obtain p where p: "p \<in> set idx" and i: "i = fst p" using assms(2) by (rule imageE)
  have "\<forall>p \<in> set idx. \<exists>t. root_ancestor (length idx) idx (fst p) = Inr t"
    using assms(1) unfolding rooted_def by (rule conjunct2)
  then have "\<exists>t. root_ancestor (length idx) idx (fst p) = Inr t" using p by (rule bspec)
  then show ?thesis unfolding i .
qed

lemma rooted_register:
  assumes r: "rooted idx" and fresh: "x \<notin> fst ` set idx"
    and par: "case bc_parent c of None \<Rightarrow> True | Some p \<Rightarrow> p \<in> fst ` set idx"
  shows "rooted (AList.update x c idx)"
proof -
  let ?idx = "AList.update x c idx"
  have none: "map_of idx x = None" using fresh by (simp add: map_of_eq_None_iff)
  have app: "?idx = idx @ [(x, c)]" using fresh by (rule update_new_key)
  have len: "length ?idx = Suc (length idx)" unfolding app by simp
  have "distinct (map fst idx)" using r unfolding rooted_def by (rule conjunct1)
  then have d: "distinct (map fst ?idx)" by (rule distinct_update)
  have old: "\<exists>t. root_ancestor (length idx) ?idx i = Inr t" if mem: "i \<in> fst ` set idx" for i
  proof -
    obtain t where h: "root_ancestor (length idx) idx i = Inr t"
      using rooted_resolves [OF r mem] by (rule exE)
    have "root_ancestor (length idx) ?idx i = Inr t"
      using none h by (rule root_ancestor_new_entry)
    then show ?thesis by (rule exI)
  qed
  have m: "map_of ?idx x = Some c" by (simp add: update_conv')
  have new: "\<exists>t. root_ancestor (Suc (length idx)) ?idx x = Inr t"
  proof (cases "bc_parent c")
    case None
    then have "root_ancestor (Suc (length idx)) ?idx x = Inr c"
      by (simp only: root_ancestor.simps m option.case)
    then show ?thesis by (rule exI)
  next
    case (Some p)
    then have "p \<in> fst ` set idx" using par by simp
    then have "\<exists>t. root_ancestor (length idx) ?idx p = Inr t" by (rule old)
    then obtain t where t: "root_ancestor (length idx) ?idx p = Inr t" by (rule exE)
    have "root_ancestor (Suc (length idx)) ?idx x = Inr t"
      by (simp only: root_ancestor.simps m option.case Some t)
    then show ?thesis by (rule exI)
  qed
  have "\<exists>t. root_ancestor (length ?idx) ?idx (fst p) = Inr t" if mem: "p \<in> set ?idx" for p
  proof (cases "fst p = x")
    case True
    then show ?thesis unfolding len using new by simp
  next
    case False
    then have "p \<in> set idx" using mem unfolding app by auto
    then have "fst p \<in> fst ` set idx" by (rule imageI)
    then have "\<exists>t. root_ancestor (length idx) ?idx (fst p) = Inr t" by (rule old)
    then obtain t where "root_ancestor (length idx) ?idx (fst p) = Inr t" by (rule exE)
    then have "root_ancestor (Suc (length idx)) ?idx (fst p) = Inr t"
      by (rule root_ancestor_more_fuel)
    then show ?thesis unfolding len by (rule exI)
  qed
  then have "\<forall>p \<in> set ?idx. \<exists>t. root_ancestor (length ?idx) ?idx (fst p) = Inr t"
    by (rule ballI)
  with d show ?thesis unfolding rooted_def by (rule conjI)
qed

lemma onContextCreated_index:
  "browsingContexts (priv_connection (snd (onContextCreated b e))) =
     AList.update (ev_context e) (new_BrowsingContext e) (browsingContexts (priv_connection b))"
  by (simp add: onContextCreated_def Let_def registerBrowsingContexts_def new_BrowsingContext_def
      split: option.splits sum.splits)

lemma onContextDestroyed_index:
  "browsingContexts (priv_connection (snd (onContextDestroyed b i))) =
     browsingContexts (priv_connection b)"
  by (simp add: onContextDestroyed_def Let_def split: option.splits sum.splits)

lemma onContextCreated_keys_subset:
  "fst ` set (priv_targets (snd (onContextCreated b e))) \<subseteq>
     insert (ev_context e) (fst ` set (priv_targets b))"
  by (auto simp add: onContextCreated_def Let_def dom_update split: option.splits sum.splits)

lemma onContextDestroyed_keys_subset:
  "fst ` set (priv_targets (snd (onContextDestroyed b i))) \<subseteq> fst ` set (priv_targets b)"
  using dom_delete_subset [of i "priv_targets b"]
  by (auto simp add: onContextDestroyed_targets)

lemma onContextDestroyed_resolves:
  assumes "rooted (browsingContexts (priv_connection b))"
    and "i \<in> fst ` set (browsingContexts (priv_connection b))"
  shows "fst (onContextDestroyed b i) = None"
proof -
  obtain c where "map_of (browsingContexts (priv_connection b)) i = Some c"
    using assms(2) by (metis map_of_eq_None_iff not_None_eq)
  then have g: "getBrowsingContext (priv_connection b) i = Inr c"
    by (simp add: getBrowsingContext_def)
  obtain t where "getTopLevelContext (priv_connection b) i = Inr t"
    using rooted_resolves [OF assms] unfolding getTopLevelContext_def by (rule exE)
  then show ?thesis using g by (simp add: onContextDestroyed_def Let_def split: option.splits)
qed

lemma parents_first_resolve:
  assumes "rooted (browsingContexts (priv_connection b))"
    and "fst ` set (priv_targets b) \<subseteq> fst ` set (browsingContexts (priv_connection b))"
    and "parents_first (fst ` set (browsingContexts (priv_connection b))) evs"
  shows "destroys_resolve b evs"
  using assms
proof (induction evs arbitrary: b)
  case Nil
  then show ?case by simp
next
  case (Cons ev evs)
  show ?case
  proof (cases ev)
    case (ContextCreated e)
    let ?b = "deliver b ev"
    let ?idx = "browsingContexts (priv_connection b)"
    have idx: "browsingContexts (priv_connection ?b) =
        AList.update (ev_context e) (new_BrowsingContext e) ?idx"
      using ContextCreated by (simp add: deliver_def onContextCreated_index)
    have fresh: "ev_context e \<notin> fst ` set ?idx"
      and par: "case ev_parent e of None \<Rightarrow> True | Some p \<Rightarrow> p \<in> fst ` set ?idx"
      and rest: "parents_first (insert (ev_context e) (fst ` set ?idx)) evs"
      using Cons.prems(3) ContextCreated by simp_all
    have r: "rooted (browsingContexts (priv_connection ?b))"
      unfolding idx using Cons.prems(1) fresh par
      by (intro rooted_register) (simp_all add: new_BrowsingContext_def)
    have k: "fst ` set (browsingContexts (priv_connection ?b)) = insert (ev_context e) (fst ` set ?idx)"
      unfolding idx by (simp add: dom_update)
    have t: "fst ` set (priv_targets ?b) \<subseteq> fst ` set (browsingContexts (priv_connection ?b))"
      unfolding k using onContextCreated_keys_subset [of b e] Cons.prems(2) ContextCreated
      by (auto simp add: deliver_def)
    have "destroys_resolve ?b evs"
      using r t rest unfolding k [symmetric] by (rule Cons.IH)
    then show ?thesis using ContextCreated by simp
  next
    case (ContextDestroyed i)
    let ?b = "deliver b ev"
    have idx: "browsingContexts (priv_connection ?b) = browsingContexts (priv_connection b)"
      using ContextDestroyed by (simp add: deliver_def onContextDestroyed_index)
    have t: "fst ` set (priv_targets ?b) \<subseteq> fst ` set (browsingContexts (priv_connection ?b))"
      unfolding idx using onContextDestroyed_keys_subset [of b i] Cons.prems(2) ContextDestroyed
      by (auto simp add: deliver_def)
    have r: "rooted (browsingContexts (priv_connection ?b))"
      unfolding idx by (rule Cons.prems(1))
    have rest: "parents_first (fst ` set (browsingContexts (priv_connection ?b))) evs"
      unfolding idx using Cons.prems(3) ContextDestroyed by simp
    have "destroys_resolve ?b evs"
      using r t rest by (rule Cons.IH)
    moreover have "map_of (priv_targets b) i = None \<or> fst (onContextDestroyed b i) = None"
    proof (cases "map_of (priv_targets b) i")
      case None
      then show ?thesis by simp
    next
      case (Some t)
      then have "i \<in> fst ` set (priv_targets b)" by (metis map_of_eq_None_iff option.distinct(1))
      then have "i \<in> fst ` set (browsingContexts (priv_connection b))" using Cons.prems(2) by blast
      then show ?thesis using onContextDestroyed_resolves [OF Cons.prems(1)] by simp
    qed
    ultimately show ?thesis using ContextDestroyed by simp
  qed
qed

lemma parents_first_handled:
  assumes "browsingContexts (opt_connection opts) = []" and "parents_first {} evs"
  shows "destroys_resolve (Browser_constructor opts n v) evs"
proof -
  let ?b = "Browser_constructor opts n v"
  have i: "browsingContexts (priv_connection ?b) = []"
    using assms(1) by (simp add: Browser_constructor_def Let_def connectionEventHandlers_def on_def)
  have t: "priv_targets ?b = []" by (simp add: Browser_constructor_def Let_def)
  show ?thesis
    using assms(2) by (intro parents_first_resolve) (simp_all add: i t rooted_def)
qed

subsection \<open>Closing\<close>

lemma unregister_closed:
  "closed (foldl (\<lambda>c (eventName, h). off eventName h c) c connectionEventHandlers) = closed c"
  by (simp add: connectionEventHandlers_def off_def)

lemma unregister_disposed:
  "disposed (foldl (\<lambda>c (eventName, h). off eventName h c) c connectionEventHandlers) = disposed c"
  by (simp add: connectionEventHandlers_def off_def)

lemma close_when_closed:
  "closed (priv_connection b) \<Longrightarrow>
   close b =
     (None, b\<lparr>priv_connection :=
                foldl (\<lambda>c (eventName, h). off eventName h c) (priv_connection b)
                  connectionEventHandlers\<rparr>)"
  by (simp add: close_def Let_def unregister_closed)

lemma close_closes: "closed (priv_connection (snd (close b)))"
  by (simp add: close_def Let_def unregister_closed dispose_def split: option.splits)

lemma close_disposed_le:
  "disposed (priv_connection (snd (close b))) \<le> Suc (disposed (priv_connection b))"
  by (simp add: close_def Let_def unregister_disposed dispose_def split: option.splits)

lemma close_callback_le:
  "count_list (trace (snd (close b))) CloseCallbackCall \<le> Suc (count_list (trace b) CloseCallbackCall)"
  by (simp add: close_def Let_def split: option.splits)

lemma others_keep_listeners:
  assumes "op \<noteq> Close"
  shows "listeners (priv_connection (perform b op)) = listeners (priv_connection b)"
proof (cases op)
  case (Deliver ev)
  then show ?thesis
    by (cases ev)
      (simp_all add: deliver_def onContextCreated_def onContextDestroyed_def Let_def
        registerBrowsingContexts_def split: option.splits sum.splits)
next
  case (Navigate event)
  then show ?thesis
    by (simp add: onContextNavigation_def Let_def split: option.splits sum.splits)
next
  case ProcessClose
  then show ?thesis by (simp add: process_close_def dispose_def split: option.splits)
next
  case Close
  then show ?thesis using assms by simp
next
  case CreateIncognitoBrowserContext
  then show ?thesis by (simp add: createIncognitoBrowserContext_def Let_def)
next
  case (CloseContext c)
  then show ?thesis by (simp add: closeContext_def Let_def)
next
  case (BrowserContextClose c)
  then show ?thesis by (simp add: BrowserContext_close_def closeContext_def Let_def)
next
  case Targets
  then show ?thesis by (simp add: targets_def)
next
  case (MutateTargetArray a xs)
  then show ?thesis by (simp add: mutate_target_array_def)
next
  case (MutateContextArray a xs)
  then show ?thesis by (simp add: mutate_context_array_def)
qed

lemma count_list_remove1:
  "count_list (remove1 x xs) y = (if x = y then count_list xs y - 1 else count_list xs y)"
  by (induction xs) auto

lemma unregister_listeners:
  "listeners (foldl (\<lambda>c (eventName, h). off eventName h c) c connectionEventHandlers) =
     remove1 (''browsingContext.navigationStarted'', Bound_onContextNavigation_navigationStarted)
       (remove1 (''browsingContext.fragmentNavigated'', Bound_onContextNavigation_fragmentNavigated)
         (remove1 (''browsingContext.contextDestroyed'', Bound_onContextDestroyed)
           (remove1 (''browsingContext.contextCreated'', Bound_onContextCreated) (listeners c))))"
  by (simp add: connectionEventHandlers_def off_def)

lemma close_listeners:
  "listeners (priv_connection (snd (close b))) =
     listeners (foldl (\<lambda>c (eventName, h). off eventName h c) (priv_connection b) connectionEventHandlers)"
  by (simp add: close_def Let_def dispose_def split: option.splits)

lemma close_count_le:
  "count_list (listeners (priv_connection (snd (close b)))) eh \<le>
     count_list (listeners (priv_connection b)) eh"
  by (simp only: close_listeners unregister_listeners) (simp add: count_list_remove1)

lemma perform_registered:
  assumes "registered_at_most_once (priv_connection b)"
  shows "registered_at_most_once (priv_connection (perform b op))"
proof (cases "op = Close")
  case True
  have "count_list (listeners (priv_connection (snd (close b)))) eh \<le> 1"
    if "eh \<in> set connectionEventHandlers" for eh
  proof -
    have "count_list (listeners (priv_connection b)) eh \<le> 1"
      using assms that unfolding registered_at_most_once_def by (rule bspec)
    then show ?thesis using close_count_le [of b eh] by (rule order_trans [rotated])
  qed
  then show ?thesis unfolding registered_at_most_once_def True perform.simps by (rule ballI)
next
  case False
  then have "listeners (priv_connection (perform b op)) = listeners (priv_connection b)"
    by (rule others_keep_listeners)
  then show ?thesis using assms unfolding registered_at_most_once_def by simp
qed

lemma perform_all_registered:
  assumes "registered_at_most_once (priv_connection b)"
  shows "registered_at_most_once (priv_connection (perform_all b ops))"
  using assms
proof (induction ops arbitrary: b)
  case Nil
  then show ?case by (simp add: perform_all_def)
next
  case (Cons op ops)
  have "registered_at_most_once (priv_connection (perform b op))"
    using Cons.prems by (rule perform_registered)
  then have "registered_at_most_once (priv_connection (perform_all (perform b op) ops))"
    by (rule Cons.IH)
  then show ?case by (simp add: perform_all_def)
qed

lemma constructor_registers_once:
  assumes "\<forall>eh \<in> set connectionEventHandlers. eh \<notin> set (listeners (opt_connection opts))"
  shows "registered_at_most_once (priv_connection (Browser_constructor opts n v))"
  using assms
  by (simp add: registered_at_most_once_def Browser_constructor_def Let_def connectionEventHandlers_def on_def count_list_0_iff)

lemma count_zero_notin: "count_list xs x = 0 \<Longrightarrow> x \<notin> set xs"
  by (simp add: count_list_0_iff)

lemma close_unregisters:
  assumes "registered_at_most_once (priv_connection b)"
  shows "\<forall>eh \<in> set connectionEventHandlers. eh \<notin> set (listeners (priv_connection (snd (close b))))"
proof
  fix eh assume eh: "eh \<in> set connectionEventHandlers"
  have le: "count_list (listeners (priv_connection b)) eh \<le> 1"
    using assms eh by (simp add: registered_at_most_once_def)
  have L: "listeners (priv_connection (snd (close b))) =
     remove1 (''browsingContext.navigationStarted'', Bound_onContextNavigation_navigationStarted)
       (remove1 (''browsingContext.fragmentNavigated'', Bound_onContextNavigation_fragmentNavigated)
         (remove1 (''browsingContext.contextDestroyed'', Bound_onContextDestroyed)
           (remove1 (''browsingContext.contextCreated'', Bound_onContextCreated)
             (listeners (priv_connection b)))))"
    by (simp only: close_listeners unregister_listeners)
  have "count_list (listeners (priv_connection (snd (close b)))) eh = 0"
    unfolding L using eh le
    by (auto simp add: count_list_remove1 connectionEventHandlers_def)
  then show "eh \<notin> set (listeners (priv_connection (snd (close b))))"
    by (rule count_zero_notin)
qed

lemma constructor_listeners:
  "listeners (priv_connection (Browser_constructor opts n v)) =
     listeners (opt_connection opts) @
     [(''browsingContext.contextCreated'', Bound_onContextCreated),
      (''browsingContext.contextDestroyed'', Bound_onContextDestroyed),
      (''browsingContext.fragmentNavigated'', Bound_onContextNavigation_fragmentNavigated),
      (''browsingContext.navigationStarted'', Bound_onContextNavigation_navigationStarted)]"
  by (simp add: Browser_constructor_def Let_def connectionEventHandlers_def on_def)

lemma close_removes_four:
  "listeners (priv_connection (snd (close b))) =
     remove1 (''browsingContext.navigationStarted'', Bound_onContextNavigation_navigationStarted)
       (remove1 (''browsingContext.fragmentNavigated'', Bound_onContextNavigation_fragmentNavigated)
         (remove1 (''browsingContext.contextDestroyed'', Bound_onContextDestroyed)
           (remove1 (''browsingContext.contextCreated'', Bound_onContextCreated)
             (listeners (priv_connection b)))))"
  by (simp only: close_listeners unregister_listeners)

subsection \<open>The default context\<close>

lemma perform_defaultContext:
  "priv_defaultContext (perform b op) = priv_defaultContext b"
proof (cases op)
  case (Deliver ev)
  then show ?thesis
    by (cases ev)
      (simp_all add: deliver_def onContextCreated_def onContextDestroyed_def Let_def
        split: option.splits sum.splits)
next
  case (Navigate event)
  then show ?thesis
    by (simp add: onContextNavigation_def Let_def split: option.splits sum.splits)
next
  case ProcessClose
  then show ?thesis by (simp add: process_close_def split: option.splits)
next
  case Close
  then show ?thesis by (simp add: close_def Let_def split: option.splits)
next
  case CreateIncognitoBrowserContext
  then show ?thesis by (simp add: createIncognitoBrowserContext_def Let_def)
next
  case (CloseContext c)
  then show ?thesis by (simp add: closeContext_def Let_def)
next
  case (BrowserContextClose c)
  then show ?thesis by (simp add: BrowserContext_close_def closeContext_def Let_def)
next
  case Targets
  then show ?thesis by (simp add: targets_def)
next
  case (MutateTargetArray a xs)
  then show ?thesis by (simp add: mutate_target_array_def)
next
  case (MutateContextArray a xs)
  then show ?thesis by (simp add: mutate_context_array_def)
qed

lemma perform_all_defaultContext:
  "priv_defaultContext (perform_all b ops) = priv_defaultContext b"
proof (induction ops arbitrary: b)
  case Nil
  then show ?case by (simp add: perform_all_def)
next
  case (Cons op ops)
  have "priv_defaultContext (perform_all (perform b op) ops) = priv_defaultContext (perform b op)"
    by (rule Cons.IH)
  then show ?case by (simp add: perform_all_def perform_defaultContext)
qed

lemma perform_spares:
  assumes "d \<in> set (contexts b)" and "isDefault d" and "spares d op"
  shows "d \<in> set (contexts (perform b op))"
proof (cases op)
  case (Deliver ev)
  then show ?thesis using assms(1)
    by (cases ev)
      (simp_all add: deliver_def onContextCreated_def onContextDestroyed_def Let_def
        contexts_def split: option.splits sum.splits)
next
  case (Navigate event)
  then show ?thesis using assms(1)
    by (simp add: onContextNavigation_def Let_def contexts_def split: option.splits sum.splits)
next
  case ProcessClose
  then show ?thesis using assms(1)
    by (simp add: process_close_def contexts_def split: option.splits)
next
  case Close
  then show ?thesis using assms(1)
    by (simp add: close_def Let_def contexts_def split: option.splits)
next
  case CreateIncognitoBrowserContext
  then show ?thesis using assms(1)
    by (simp add: createIncognitoBrowserContext_def Let_def contexts_def)
next
  case (CloseContext c)
  then show ?thesis using assms(1,3)
    by (simp add: closeContext_def Let_def contexts_def)
next
  case (BrowserContextClose c)
  then show ?thesis using assms
    by (auto simp add: BrowserContext_close_def closeContext_def Let_def contexts_def)
next
  case Targets
  then show ?thesis using assms(1) by (simp add: targets_def contexts_def)
next
  case (MutateTargetArray a xs)
  then show ?thesis using assms(1) by (simp add: mutate_target_array_def contexts_def)
next
  case (MutateContextArray a xs)
  then show ?thesis using assms(3) by simp
qed

lemma perform_all_spares:
  assumes "d \<in> set (contexts b)" and "isDefault d" and "\<forall>op \<in> set ops. spares d op"
  shows "d \<in> set (contexts (perform_all b ops))"
  using assms(1,3)
proof (induction ops arbitrary: b)
  case Nil
  then show ?case by (simp add: perform_all_def)
next
  case (Cons op ops)
  have "spares d op" using Cons.prems(2) by simp
  with Cons.prems(1) assms(2) have "d \<in> set (contexts (perform b op))"
    by (rule perform_spares)
  moreover have "\<forall>op \<in> set ops. spares d op" using Cons.prems(2) by simp
  ultimately have "d \<in> set (contexts (perform_all (perform b op) ops))"
    by (rule Cons.IH)
  then show ?case by (simp add: perform_all_def)
qed

subsection \<open>Session creation\<close>

lemma includes_str_iff: "includes_str s p \<longleftrightarrow> (\<exists>u w. s = u @ p @ w)"
proof (induction s)
  case Nil
  then show ?case by auto
next
  case (Cons c cs)
  show ?case
  proof
    assume "includes_str (c # cs) p"
    then consider "take (length p) (c # cs) = p" | "includes_str cs p" by auto
    then show "\<exists>u w. c # cs = u @ p @ w"
    proof cases
      case 1
      then have "c # cs = [] @ p @ drop (length p) (c # cs)"
        by (metis append_Nil append_take_drop_id)
      then show ?thesis by blast
    next
      case 2
      then obtain u w where "cs = u @ p @ w" using Cons.IH by blast
      then have "c # cs = (c # u) @ p @ w" by simp
      then show ?thesis by blast
    qed
  next
    assume "\<exists>u w. c # cs = u @ p @ w"
    then obtain u w where uw: "c # cs = u @ p @ w" by blast
    show "includes_str (c # cs) p"
    proof (cases u)
      case Nil
      then have "take (length p) (c # cs) = p" using uw by simp
      then show ?thesis by simp
    next
      case (Cons d u')
      then have "cs = u' @ p @ w" using uw by simp
      then have "includes_str cs p" using Cons.IH by blast
      then show ?thesis by simp
    qed
  qed
qed

lemma lower_firefox: "map lower_char ''firefox'' = ''firefox''"
  by (simp add: lower_char_def)

lemma map_infix_iff:
  "(\<exists>u w. map f s = u @ p @ w) \<longleftrightarrow> (\<exists>u v w. s = u @ v @ w \<and> map f v = p)"
proof
  assume "\<exists>u w. map f s = u @ p @ w"
  then obtain u w where "map f s = u @ p @ w" by blast
  then obtain s1 s2 where s: "s = s1 @ s2" and "map f s2 = p @ w"
    by (metis map_eq_append_conv)
  then obtain v s3 where "s2 = v @ s3" and "map f v = p"
    by (metis map_eq_append_conv)
  then show "\<exists>u v w. s = u @ v @ w \<and> map f v = p" using s by blast
next
  assume "\<exists>u v w. s = u @ v @ w \<and> map f v = p"
  then obtain u v w where "s = u @ v @ w" and "map f v = p" by blast
  then have "map f s = map f u @ p @ map f w" by simp
  then show "\<exists>u w. map f s = u @ p @ w" by blast
qed

lemma contains_ignoring_case_code:
  "contains_ignoring_case s ''firefox'' = includes_str (toLocaleLowerCase s) ''firefox''"
  by (simp only: contains_ignoring_case_def toLocaleLowerCase_def lower_firefox
      includes_str_iff map_infix_iff)

lemma on_sent: "sent (on n h c) = sent c"
  by (simp add: on_def)

lemma register_sent: "sent (registerBrowsingContexts x c) = sent c"
  by (simp add: registerBrowsingContexts_def)

lemma constructor_sent: "sent (priv_connection (Browser_constructor opts n v)) = sent (opt_connection opts)"
  by (simp add: Browser_constructor_def Let_def connectionEventHandlers_def on_def)

lemma onContextCreated_sent: "sent (priv_connection (snd (onContextCreated b e))) = sent (priv_connection b)"
  by (simp add: onContextCreated_def Let_def register_sent split: option.splits sum.splits)

lemma each_sent: "sent (priv_connection (snd (onContextCreated_each b es))) = sent (priv_connection b)"
proof (induction es arbitrary: b)
  case Nil
  then show ?case by simp
next
  case (Cons e es)
  show ?case
  proof (cases "onContextCreated b e")
    case (Pair r b')
    then have s: "sent (priv_connection b') = sent (priv_connection b)"
      using onContextCreated_sent [of b e] by simp
    show ?thesis
    proof (cases r)
      case None
      then show ?thesis using Pair s Cons.IH [of b'] by simp
    next
      case (Some err)
      then show ?thesis using Pair s by simp
    qed
  qed
qed

lemma getTree_sent:
  "sent (priv_connection (snd (getTree b))) = sent (priv_connection b) @ [BrowsingContextGetTree]"
  by (simp add: getTree_def send_browsingContext_getTree_def each_sent split: sum.splits)

lemma constructor_getTree:
  "browsingContext_getTree (priv_connection (Browser_constructor opts n v)) =
     browsingContext_getTree (opt_connection opts)"
  by (simp add: Browser_constructor_def Let_def connectionEventHandlers_def on_def)

lemma getTree_fails:
  "browsingContext_getTree (priv_connection b) = Inl err \<Longrightarrow> fst (getTree b) = Some err"
  by (simp add: getTree_def send_browsingContext_getTree_def)

lemma onContextCreated_top_level:
  assumes "contexts b \<noteq> []" and "\<not> truthy (ev_parent e)"
  shows "fst (onContextCreated b e) = None"
  using assms
  by (auto simp add: onContextCreated_def Let_def contexts_def browserContexts_def at_last_def
      new_BrowsingContext_def truthy_def split: option.splits sum.splits)

lemma each_top_level:
  assumes "contexts b \<noteq> []" and "\<forall>e \<in> set es. \<not> truthy (ev_parent e)"
  shows "fst (onContextCreated_each b es) = None"
  using assms
proof (induction es arbitrary: b)
  case Nil
  then show ?case by simp
next
  case (Cons e es)
  obtain r b' where p: "onContextCreated b e = (r, b')" by (cases "onContextCreated b e")
  have r: "r = None" using onContextCreated_top_level [of b e] Cons.prems p by simp
  have "contexts b' = contexts b" using onContextCreated_contexts [of b e] p by simp
  then have "fst (onContextCreated_each b' es) = None"
    using Cons.IH [of b'] Cons.prems by simp
  then show ?case using p r by simp
qed

lemma onContextCreated_names:
  "priv_browserName (snd (onContextCreated b e)) = priv_browserName b
   \<and> priv_browserVersion (snd (onContextCreated b e)) = priv_browserVersion b"
  by (simp add: onContextCreated_def Let_def split: option.splits sum.splits)

lemma each_names:
  "priv_browserName (snd (onContextCreated_each b es)) = priv_browserName b
   \<and> priv_browserVersion (snd (onContextCreated_each b es)) = priv_browserVersion b"
proof (induction es arbitrary: b)
  case Nil
  then show ?case by simp
next
  case (Cons e es)
  obtain r b' where p: "onContextCreated b e = (r, b')" by (cases "onContextCreated b e")
  then have n: "priv_browserName b' = priv_browserName b \<and> priv_browserVersion b' = priv_browserVersion b"
    using onContextCreated_names [of b e] by simp
  show ?case
  proof (cases r)
    case None
    then show ?thesis using p n Cons.IH [of b'] by simp
  next
    case (Some err)
    then show ?thesis using p n by simp
  qed
qed

lemma getTree_names:
  "priv_browserName (snd (getTree b)) = priv_browserName b
   \<and> priv_browserVersion (snd (getTree b)) = priv_browserVersion b"
  by (simp add: getTree_def send_browsingContext_getTree_def each_names split: sum.splits)

lemma constructor_contexts:
  "contexts (Browser_constructor opts n v) = [priv_defaultContext (Browser_constructor opts n v)]"
  by (simp add: Browser_constructor_def Let_def contexts_def)

lemma getTree_top_level:
  assumes "contexts b \<noteq> []" and "browsingContext_getTree (priv_connection b) = Inr es"
    and "\<forall>e \<in> set es. \<not> truthy (ev_parent e)"
  shows "fst (getTree b) = None"
proof -
  let ?b = "b\<lparr>priv_connection := (priv_connection b)\<lparr>sent := sent (priv_connection b) @ [BrowsingContextGetTree]\<rparr>\<rparr>"
  have "contexts ?b \<noteq> []" using assms(1) by (simp add: contexts_def)
  then have "fst (onContextCreated_each ?b es) = None" using assms(3) by (rule each_top_level)
  then show ?thesis using assms(2) by (simp add: getTree_def send_browsingContext_getTree_def)
qed

lemma onContextCreated_top_level_eq:
  assumes "contexts b \<noteq> []" and "\<not> truthy (ev_parent e)"
  shows "onContextCreated b e =
     (None,
      b\<lparr>priv_connection := registerBrowsingContexts (new_BrowsingContext e) (priv_connection b),
        priv_targets :=
          AList.update (ev_context e) (BiDiPageTarget (last (contexts b)) (ev_context e))
            (priv_targets b),
        trace := trace b @
          [BrowserEmit TargetCreated (BiDiPageTarget (last (contexts b)) (ev_context e)),
           BrowserContextEmit (ref (last (contexts b))) TargetCreated
             (BiDiPageTarget (last (contexts b)) (ev_context e))]\<rparr>)"
  using assms
  by (auto simp add: onContextCreated_def Let_def contexts_def browserContexts_def at_last_def
      new_BrowsingContext_def truthy_def registerBrowsingContexts_def split: option.splits)

lemma each_top_level_seeds:
  assumes "contexts b \<noteq> []" and "\<forall>e \<in> set es. \<not> truthy (ev_parent e)"
  shows "priv_targets (snd (onContextCreated_each b es)) =
           foldl (\<lambda>al e. AList.update (ev_context e)
                    (BiDiPageTarget (last (contexts b)) (ev_context e)) al)
             (priv_targets b) es
         \<and> browsingContexts (priv_connection (snd (onContextCreated_each b es))) =
           foldl (\<lambda>al e. AList.update (ev_context e) (new_BrowsingContext e) al)
             (browsingContexts (priv_connection b)) es
         \<and> trace (snd (onContextCreated_each b es)) =
           trace b @
           concat (map (\<lambda>e.
             [BrowserEmit TargetCreated (BiDiPageTarget (last (contexts b)) (ev_context e)),
              BrowserContextEmit (ref (last (contexts b))) TargetCreated
                (BiDiPageTarget (last (contexts b)) (ev_context e))]) es)
         \<and> contexts (snd (onContextCreated_each b es)) = contexts b
         \<and> priv_defaultContext (snd (onContextCreated_each b es)) = priv_defaultContext b
         \<and> listeners (priv_connection (snd (onContextCreated_each b es))) =
             listeners (priv_connection b)
         \<and> closed (priv_connection (snd (onContextCreated_each b es))) =
             closed (priv_connection b)"
  using assms
proof (induction es arbitrary: b)
  case Nil
  then show ?case by simp
next
  case (Cons e es)
  let ?b =
    "b\<lparr>priv_connection := registerBrowsingContexts (new_BrowsingContext e) (priv_connection b),
        priv_targets :=
          AList.update (ev_context e) (BiDiPageTarget (last (contexts b)) (ev_context e))
            (priv_targets b),
        trace := trace b @
          [BrowserEmit TargetCreated (BiDiPageTarget (last (contexts b)) (ev_context e)),
           BrowserContextEmit (ref (last (contexts b))) TargetCreated
             (BiDiPageTarget (last (contexts b)) (ev_context e))]\<rparr>"
  have top: "\<not> truthy (ev_parent e)" using Cons.prems(2) by simp
  have step: "onContextCreated b e = (None, ?b)"
    using Cons.prems(1) top by (rule onContextCreated_top_level_eq)
  have c: "contexts ?b = contexts b" by (simp add: contexts_def)
  then have c': "contexts ?b \<noteq> []" using Cons.prems(1) by simp
  have rest: "\<forall>e \<in> set es. \<not> truthy (ev_parent e)" using Cons.prems(2) by simp
  have unfold: "onContextCreated_each b (e # es) = onContextCreated_each ?b es"
    using step by simp
  have t: "priv_targets ?b =
      AList.update (ev_context e) (BiDiPageTarget (last (contexts b)) (ev_context e))
        (priv_targets b)"
    by simp
  have i: "browsingContexts (priv_connection ?b) =
      AList.update (ev_context e) (new_BrowsingContext e) (browsingContexts (priv_connection b))"
    by (simp add: registerBrowsingContexts_def new_BrowsingContext_def)
  have r: "trace ?b = trace b @
          [BrowserEmit TargetCreated (BiDiPageTarget (last (contexts b)) (ev_context e)),
           BrowserContextEmit (ref (last (contexts b))) TargetCreated
             (BiDiPageTarget (last (contexts b)) (ev_context e))]"
    by simp
  have d: "priv_defaultContext ?b = priv_defaultContext b" by simp
  have l: "listeners (priv_connection ?b) = listeners (priv_connection b)"
    by (simp add: registerBrowsingContexts_def)
  have k: "closed (priv_connection ?b) = closed (priv_connection b)"
    by (simp add: registerBrowsingContexts_def)
  show ?case
    unfolding unfold using Cons.IH [OF c' rest]
    by (simp only: c t i r d l k foldl_Cons list.map concat.simps append_assoc)
qed

lemma update_entry:
  "p \<in> set (AList.update k v al) \<Longrightarrow> p = (k, v) \<or> p \<in> set al"
  by (induction al) (auto split: if_splits)

lemma seeded_keys:
  "fst ` set (foldl (\<lambda>al e. AList.update (ev_context e) (f e) al) al0 es) =
     fst ` set al0 \<union> ev_context ` set es"
proof (induction es arbitrary: al0)
  case Nil
  then show ?case by simp
next
  case (Cons e es)
  show ?case unfolding foldl_Cons Cons.IH by (auto simp add: dom_update)
qed

lemma seeded_pages:
  assumes "\<forall>p \<in> set al0. is_page_target (snd p)"
  shows "\<forall>p \<in> set (foldl (\<lambda>al e. AList.update (ev_context e)
                          (BiDiPageTarget d (ev_context e)) al) al0 es).
           is_page_target (snd p)"
  using assms
proof (induction es arbitrary: al0)
  case Nil
  then show ?case by simp
next
  case (Cons e es)
  have "\<forall>p \<in> set (AList.update (ev_context e) (BiDiPageTarget d (ev_context e)) al0).
          is_page_target (snd p)"
  proof
    fix p assume "p \<in> set (AList.update (ev_context e) (BiDiPageTarget d (ev_context e)) al0)"
    then have "p = (ev_context e, BiDiPageTarget d (ev_context e)) \<or> p \<in> set al0"
      by (rule update_entry)
    then show "is_page_target (snd p)" using Cons.prems by auto
  qed
  then show ?case unfolding foldl_Cons by (rule Cons.IH)
qed

lemma delete_absent: "map_of al k = None \<Longrightarrow> AList.delete k al = al"
  by (simp add: map_of_eq_None_iff)

text \<open>The definitions that a concrete session unfolds to.\<close>

lemmas session_defs =
  new_browser_def Browser_constructor_def options_for_def fresh_connection_def
  connectionEventHandlers_def on_def off_def dispose_def Let_def

lemmas handler_defs =
  deliver_all_def deliver_def onContextCreated_def onContextDestroyed_def
  new_BrowsingContext_def registerBrowsingContexts_def browserContexts_def at_last_def
  truthy_def getTopLevelContext_def getBrowsingContext_def page_info_def frame_info_def

subsection \<open>The claims\<close>

text \<open>
  C1.  For every sequence of context-created and context-destroyed events delivered to
  a new Browser in which no context-destroyed handler throws on an id that has a
  registered Target (the connection resolves the context and its top-level ancestor,
  as it does by \<open>parents_first_handled\<close> when the events come parent before child),
  the Target registry holds exactly one entry for each live id and none for any other
  id, so none for a destroyed one.
\<close>

theorem registry_tracks_live_contexts:
  assumes "destroys_resolve (Browser_constructor opts n v) evs"
  shows "distinct (map fst (priv_targets (deliver_all (Browser_constructor opts n v) evs)))
         \<and> set (map fst (priv_targets (deliver_all (Browser_constructor opts n v) evs))) =
             live_ids evs"
proof -
  let ?b = "Browser_constructor opts n v"
  have c: "contexts ?b \<noteq> []" by (simp add: Browser_constructor_def Let_def contexts_def)
  have t: "priv_targets ?b = []" by (simp add: Browser_constructor_def Let_def)
  then have d: "distinct (map fst (priv_targets ?b))" by simp
  show ?thesis
    using deliver_all_registry [OF c d assms] by (simp add: t ids_after_live)
qed

theorem registry_tracks_live_contexts_witness:
  "destroys_resolve new_browser page_and_frame
   \<and> map fst (priv_targets (deliver_all new_browser page_and_frame)) = [''page'']
   \<and> live_ids page_and_frame = {''page''}"
proof -
  have r: "destroys_resolve new_browser page_and_frame"
    by (simp add: page_and_frame_def handler_defs session_defs)
  have k: "map fst (priv_targets (deliver_all new_browser page_and_frame)) = [''page'']"
    by (simp add: page_and_frame_def handler_defs session_defs)
  have "set (map fst (priv_targets (deliver_all new_browser page_and_frame))) =
          live_ids page_and_frame"
    using registry_tracks_live_contexts [OF r [unfolded new_browser_def]]
    by (simp add: new_browser_def)
  then show ?thesis using r k by simp
qed

text \<open>
  Without that condition the property fails.  A frame is created before its page: the
  handler registers its Target and then throws, the parent being unknown.  The frame
  is destroyed: the lookup of its top-level ancestor throws before the registry is
  touched, and the Target of the destroyed frame stays.
\<close>

theorem destroyed_context_stays_registered:
  "map fst (priv_targets (deliver_all new_browser frame_before_page)) = [''frame'']
   \<and> ''frame'' \<notin> live_ids frame_before_page"
  by (simp add: frame_before_page_def deliver_all_def deliver_def onContextCreated_def onContextDestroyed_def
      new_browser_def Browser_constructor_def Let_def options_for_def fresh_connection_def
      connectionEventHandlers_def on_def frame_info_def new_BrowsingContext_def
      registerBrowsingContexts_def browserContexts_def at_last_def truthy_def
      getTopLevelContext_def getBrowsingContext_def live_ids_def)

text \<open>
  C2.  The default Browser Context exists as soon as the Browser is constructed: it
  is the single element of the Browser Context collection, it is marked as the
  default, and it is what \<open>defaultBrowserContext\<close> returns.  Whatever happens to the
  Browser afterwards, \<open>defaultBrowserContext\<close> returns that context, and a close
  operation directed at it fails and changes nothing, so it does not remove the
  context from the collection.  The context is in the collection after any sequence
  of operations in which every close of a context is such a close operation and no
  caller changes an array of Browser Contexts.
\<close>

theorem default_context_kept:
  "contexts (Browser_constructor opts n v) = [defaultBrowserContext (Browser_constructor opts n v)]
   \<and> isDefault (defaultBrowserContext (Browser_constructor opts n v))
   \<and> defaultBrowserContext (perform_all (Browser_constructor opts n v) ops) =
       defaultBrowserContext (Browser_constructor opts n v)
   \<and> BrowserContext_close (perform_all (Browser_constructor opts n v) ops)
         (defaultBrowserContext (perform_all (Browser_constructor opts n v) ops)) =
       (Some DefaultContextCannotBeClosed, perform_all (Browser_constructor opts n v) ops)
   \<and> ((\<forall>op \<in> set ops. spares (defaultBrowserContext (Browser_constructor opts n v)) op) \<longrightarrow>
        defaultBrowserContext (Browser_constructor opts n v)
          \<in> set (contexts (perform_all (Browser_constructor opts n v) ops)))
   \<and> (isDefault c \<longrightarrow> BrowserContext_close b c = (Some DefaultContextCannotBeClosed, b))
   \<and> (ref c \<noteq> ref (defaultBrowserContext b) \<and> defaultBrowserContext b \<in> set (contexts b)
        \<longrightarrow> defaultBrowserContext b \<in> set (contexts (snd (BrowserContext_close b c))))"
proof -
  let ?b = "Browser_constructor opts n v"
  have c: "contexts ?b = [defaultBrowserContext ?b]"
    by (simp add: Browser_constructor_def Let_def contexts_def defaultBrowserContext_def)
  have i: "isDefault (defaultBrowserContext ?b)"
    by (simp add: Browser_constructor_def Let_def defaultBrowserContext_def)
  have k: "defaultBrowserContext (perform_all ?b ops) = defaultBrowserContext ?b"
    by (simp add: defaultBrowserContext_def perform_all_defaultContext)
  have g: "BrowserContext_close (perform_all ?b ops) (defaultBrowserContext (perform_all ?b ops)) =
       (Some DefaultContextCannotBeClosed, perform_all ?b ops)"
    unfolding k using i by (simp add: BrowserContext_close_def)
  have m: "defaultBrowserContext ?b \<in> set (contexts ?b)" by (simp add: c)
  have s: "(\<forall>op \<in> set ops. spares (defaultBrowserContext ?b) op) \<longrightarrow>
        defaultBrowserContext ?b \<in> set (contexts (perform_all ?b ops))"
    using perform_all_spares [OF m i] by blast
  have one: "isDefault c \<longrightarrow> BrowserContext_close b c = (Some DefaultContextCannotBeClosed, b)"
    by (simp add: BrowserContext_close_def)
  have other: "ref c \<noteq> ref (defaultBrowserContext b) \<and> defaultBrowserContext b \<in> set (contexts b)
        \<longrightarrow> defaultBrowserContext b \<in> set (contexts (snd (BrowserContext_close b c)))"
    by (auto simp add: BrowserContext_close_def contexts_def defaultBrowserContext_def
        closeContext_def Let_def)
  show ?thesis using c i k g s one other by blast
qed

theorem default_context_kept_witness:
  "contexts new_browser = [defaultBrowserContext new_browser]
   \<and> BrowserContext_close new_browser (defaultBrowserContext new_browser) =
       (Some DefaultContextCannotBeClosed, new_browser)
   \<and> contexts (perform_all new_browser [CreateIncognitoBrowserContext]) =
       [defaultBrowserContext new_browser, fst (createIncognitoBrowserContext new_browser)]
   \<and> contexts
       (perform_all new_browser
          [CreateIncognitoBrowserContext,
           BrowserContextClose (defaultBrowserContext new_browser),
           BrowserContextClose (fst (createIncognitoBrowserContext new_browser))]) =
       [defaultBrowserContext new_browser]"
proof -
  let ?opts = "options_for (fresh_connection (Inl (ProtocolError ''unknown command'')) (Inr []))"
  let ?ops = "[CreateIncognitoBrowserContext,
           BrowserContextClose (defaultBrowserContext new_browser),
           BrowserContextClose (fst (createIncognitoBrowserContext new_browser))]"
  note inst = default_context_kept [of ?opts "[]" "[]" ?ops]
  note inst0 = default_context_kept [of ?opts "[]" "[]" "[]"]
  have first: "contexts new_browser = [defaultBrowserContext new_browser]"
    using inst unfolding new_browser_def by blast
  have guard: "BrowserContext_close new_browser (defaultBrowserContext new_browser) =
       (Some DefaultContextCannotBeClosed, new_browser)"
    using inst0 unfolding new_browser_def by (simp add: perform_all_def)
  have r: "ref (fst (createIncognitoBrowserContext new_browser)) \<noteq>
      ref (defaultBrowserContext new_browser)"
    by (simp add: createIncognitoBrowserContext_def defaultBrowserContext_def session_defs)
  then have sp: "\<forall>op \<in> set ?ops. spares (defaultBrowserContext (Browser_constructor ?opts [] [])) op"
    by (simp add: new_browser_def)
  have "defaultBrowserContext new_browser \<in> set (contexts (perform_all new_browser ?ops))"
    using inst sp unfolding new_browser_def by blast
  moreover have "contexts (perform_all new_browser ?ops) = [defaultBrowserContext new_browser]"
    by (simp add: perform_all_def createIncognitoBrowserContext_def closeContext_def
        BrowserContext_close_def contexts_def defaultBrowserContext_def session_defs)
  moreover have "contexts (perform_all new_browser [CreateIncognitoBrowserContext]) =
       [defaultBrowserContext new_browser, fst (createIncognitoBrowserContext new_browser)]"
    by (simp add: perform_all_def createIncognitoBrowserContext_def
        contexts_def defaultBrowserContext_def session_defs)
  ultimately show ?thesis using first guard by simp
qed

text \<open>
  C3.  \<open>close\<close> is idempotent.  Whatever the first call did, a second call raises
  no error, disposes nothing and calls no callback; over both calls the connection is
  disposed at most once and the close callback is called at most once.  When the
  connection is already closed, \<open>close\<close> returns without disposing it and without
  calling the callback.
\<close>

theorem close_idempotent:
  "fst (close (snd (close b))) = None
   \<and> disposed (priv_connection (snd (close (snd (close b))))) =
       disposed (priv_connection (snd (close b)))
   \<and> trace (snd (close (snd (close b)))) = trace (snd (close b))
   \<and> disposed (priv_connection (snd (close (snd (close b))))) \<le> Suc (disposed (priv_connection b))
   \<and> count_list (trace (snd (close (snd (close b))))) CloseCallbackCall
       \<le> Suc (count_list (trace b) CloseCallbackCall)
   \<and> (closed (priv_connection b) \<longrightarrow>
        fst (close b) = None
        \<and> disposed (priv_connection (snd (close b))) = disposed (priv_connection b)
        \<and> trace (snd (close b)) = trace b)"
proof -
  have c1: "closed (priv_connection (snd (close b)))" by (rule close_closes)
  have second: "fst (close (snd (close b))) = None
    \<and> disposed (priv_connection (snd (close (snd (close b))))) = disposed (priv_connection (snd (close b)))
    \<and> trace (snd (close (snd (close b)))) = trace (snd (close b))"
    using close_when_closed [OF c1] by (simp add: unregister_disposed)
  have early: "closed (priv_connection b) \<longrightarrow>
        fst (close b) = None
        \<and> disposed (priv_connection (snd (close b))) = disposed (priv_connection b)
        \<and> trace (snd (close b)) = trace b"
    using close_when_closed [of b] by (simp add: unregister_disposed)
  show ?thesis
    using second early close_disposed_le [of b] close_callback_le [of b] by simp
qed

theorem close_idempotent_witness:
  "closed (priv_connection (snd (close new_browser)))
   \<and> fst (close (snd (close new_browser))) = None
   \<and> disposed (priv_connection (snd (close (snd (close new_browser))))) = 1
   \<and> count_list (trace (snd (close (snd (close new_browser))))) CloseCallbackCall = 1"
  using close_idempotent [of new_browser] close_idempotent [of "snd (close new_browser)"]
  by (simp add: close_def session_defs)

text \<open>
  C4.  If the fetch of the initial tree fails, \<open>create\<close> returns no Browser but an
  error; when the subscription before it was accepted, so that the tree is fetched at
  all, the error is the failure of the fetch.
\<close>

theorem create_tree_failure:
  assumes "browsingContext_getTree (opt_connection opts) = Inl err"
  shows "(\<exists>e c. create opts = Inl (e, c))
         \<and> (\<forall>b. create opts \<noteq> Inr b)
         \<and> ((\<exists>u. session_subscribe (opt_connection opts)
                   (subscription
                      (negotiated_browserName
                         (session_new (opt_connection opts) (opt_ignoreHTTPSErrors opts)))) =
                 Inr u)
              \<longrightarrow> (\<exists>c. create opts = Inl (err, c)))"
proof -
  let ?c = "opt_connection opts"
  let ?name = "negotiated_browserName (session_new ?c (opt_ignoreHTTPSErrors opts))"
  let ?evs = "subscription ?name"
  let ?c1 = "?c\<lparr>sent := sent ?c @ [SessionNew (opt_ignoreHTTPSErrors opts)]\<rparr>"
  let ?c2 = "?c1\<lparr>sent := sent ?c1 @ [SessionSubscribe ?evs]\<rparr>"
  let ?b = "Browser_constructor (opts\<lparr>opt_connection := ?c2\<rparr>) ?name
              (negotiated_browserVersion (session_new ?c (opt_ignoreHTTPSErrors opts)))"
  have "browsingContext_getTree (priv_connection ?b) = Inl err"
    using assms by (simp add: constructor_getTree)
  then have f: "fst (getTree ?b) = Some err" by (rule getTree_fails)
  have main: "(\<exists>e c. create opts = Inl (e, c))
     \<and> ((\<exists>u. session_subscribe ?c ?evs = Inr u) \<longrightarrow> (\<exists>c. create opts = Inl (err, c)))"
  proof (cases "session_subscribe ?c ?evs")
    case (Inl e)
    then show ?thesis
      by (simp add: create_def send_session_new_def send_session_subscribe_def Let_def)
  next
    case (Inr u)
    obtain b' where "getTree ?b = (Some err, b')" using f by (cases "getTree ?b") simp
    then show ?thesis using Inr
      by (simp add: create_def send_session_new_def send_session_subscribe_def Let_def)
  qed
  then show ?thesis by auto
qed

theorem create_tree_failure_witness:
  "browsingContext_getTree
     (opt_connection
        (options_for (fresh_connection (Inr chrome_capabilities) (Inl (ProtocolError ''no tree''))))) =
     Inl (ProtocolError ''no tree'')
   \<and> map_sum fst version
       (create
          (options_for (fresh_connection (Inr chrome_capabilities) (Inl (ProtocolError ''no tree''))))) =
     Inl (ProtocolError ''no tree'')"
proof -
  let ?opts = "options_for (fresh_connection (Inr chrome_capabilities) (Inl (ProtocolError ''no tree'')))"
  have t: "browsingContext_getTree (opt_connection ?opts) = Inl (ProtocolError ''no tree'')"
    by (simp add: options_for_def fresh_connection_def)
  have "\<exists>c. create ?opts = Inl (ProtocolError ''no tree'', c)"
    using create_tree_failure [OF t] by (simp add: options_for_def fresh_connection_def)
  then show ?thesis using t by auto
qed

text \<open>
  C5.  \<open>create\<close> sends \<^verbatim>\<open>session.new\<close> and then \<^verbatim>\<open>session.subscribe\<close>.
  If the negotiated engine name contains "firefox", letter case ignored, the
  subscription is to the three base modules only; for every other name, the empty
  name of a failed negotiation among them, it is to the three base modules and the
  six entries of the list of debug, coverage and tracing events.
\<close>

theorem create_subscribes:
  "\<exists>rest.
     sent (connection_after (create opts)) =
       sent (opt_connection opts) @
       [SessionNew (opt_ignoreHTTPSErrors opts),
        SessionSubscribe
          (if contains_ignoring_case
                (negotiated_browserName
                   (session_new (opt_connection opts) (opt_ignoreHTTPSErrors opts)))
                ''firefox''
           then [''browsingContext'', ''network'', ''log'']
           else [''browsingContext'', ''network'', ''log'',
                 ''cdp.Debugger.scriptParsed'', ''cdp.CSS.styleSheetAdded'',
                 ''cdp.Runtime.executionContextsCleared'', ''cdp.Tracing.tracingComplete'',
                 ''cdp.Network.requestWillBeSent'', ''cdp.Debugger.scriptParsed''])] @ rest
     \<and> (rest = [] \<or> rest = [BrowsingContextGetTree])"
proof -
  let ?c = "opt_connection opts"
  let ?name = "negotiated_browserName (session_new ?c (opt_ignoreHTTPSErrors opts))"
  let ?evs = "subscription ?name"
  let ?c1 = "?c\<lparr>sent := sent ?c @ [SessionNew (opt_ignoreHTTPSErrors opts)]\<rparr>"
  let ?c2 = "?c1\<lparr>sent := sent ?c1 @ [SessionSubscribe ?evs]\<rparr>"
  let ?b = "Browser_constructor (opts\<lparr>opt_connection := ?c2\<rparr>) ?name
              (negotiated_browserVersion (session_new ?c (opt_ignoreHTTPSErrors opts)))"
  have evs: "?evs = (if contains_ignoring_case ?name ''firefox''
           then [''browsingContext'', ''network'', ''log'']
           else [''browsingContext'', ''network'', ''log'',
                 ''cdp.Debugger.scriptParsed'', ''cdp.CSS.styleSheetAdded'',
                 ''cdp.Runtime.executionContextsCleared'', ''cdp.Tracing.tracingComplete'',
                 ''cdp.Network.requestWillBeSent'', ''cdp.Debugger.scriptParsed''])"
    by (simp add: subscription_def contains_ignoring_case_code subscribeModules_def
        subscribeCdpEvents_def)
  have tree: "sent (priv_connection (snd (getTree ?b))) = sent ?c2 @ [BrowsingContextGetTree]"
    by (simp only: getTree_sent constructor_sent) simp
  have "sent (connection_after (create opts)) = sent ?c2
        \<or> sent (connection_after (create opts)) = sent ?c2 @ [BrowsingContextGetTree]"
  proof (cases "session_subscribe ?c1 ?evs")
    case (Inl err)
    then show ?thesis
      by (simp add: create_def send_session_new_def send_session_subscribe_def
          connection_after_def Let_def)
  next
    case (Inr u)
    obtain r b' where g: "getTree ?b = (r, b')" by (cases "getTree ?b")
    then have "sent (priv_connection b') = sent ?c2 @ [BrowsingContextGetTree]"
      using tree by simp
    then show ?thesis using Inr g
      by (cases r) (simp_all add: create_def send_session_new_def send_session_subscribe_def
          connection_after_def Let_def)
  qed
  then show ?thesis unfolding evs [symmetric] by auto
qed

theorem create_subscribes_witness:
  "sent (connection_after
       (create (options_for (fresh_connection (Inr firefox_capabilities) (Inr []))))) =
     [SessionNew None, SessionSubscribe [''browsingContext'', ''network'', ''log''],
      BrowsingContextGetTree]
   \<and> sent (connection_after
       (create (options_for (fresh_connection (Inr chrome_capabilities) (Inr []))))) =
     [SessionNew None,
      SessionSubscribe
        [''browsingContext'', ''network'', ''log'',
         ''cdp.Debugger.scriptParsed'', ''cdp.CSS.styleSheetAdded'',
         ''cdp.Runtime.executionContextsCleared'', ''cdp.Tracing.tracingComplete'',
         ''cdp.Network.requestWillBeSent'', ''cdp.Debugger.scriptParsed''],
      BrowsingContextGetTree]"
  using create_subscribes [of "options_for (fresh_connection (Inr firefox_capabilities) (Inr []))"]
    create_subscribes [of "options_for (fresh_connection (Inr chrome_capabilities) (Inr []))"]
  by (simp add: create_def connection_after_def send_session_new_def send_session_subscribe_def
      getTree_def send_browsingContext_getTree_def subscription_def negotiated_browserName_def
      negotiated_browserVersion_def firefox_capabilities_def chrome_capabilities_def
      toLocaleLowerCase_def lower_char_def subscribeModules_def subscribeCdpEvents_def
      session_defs)

text \<open>
  C6.  The Target that a context-created event puts into the registry, under the id
  of the context, is a page target exactly when the context has no parent and a
  nested target exactly when it has one.  The handler reads the parent as
  JavaScript does: an absent parent is none, a parent id is a non-empty string, and
  an empty string counts as none.  Only with an empty Browser Context collection is
  no Target put in: the handler then throws.
\<close>

theorem onContextCreated_target_kind:
  "(contexts b = [] \<longrightarrow>
      fst (onContextCreated b event) = Some MissingBrowserContexts
      \<and> priv_targets (snd (onContextCreated b event)) = priv_targets b)
   \<and> (contexts b \<noteq> [] \<longrightarrow>
      (\<exists>t. map_of (priv_targets (snd (onContextCreated b event))) (ev_context event) = Some t
           \<and> (is_page_target t \<longleftrightarrow> \<not> truthy (ev_parent event))
           \<and> (is_nested_target t \<longleftrightarrow> truthy (ev_parent event))
           \<and> (ev_parent event = None \<longrightarrow> is_page_target t)
           \<and> (\<forall>p. ev_parent event = Some p \<and> p \<noteq> [] \<longrightarrow> is_nested_target t)
           \<and> context_of t = ev_context event
           \<and> browserContext_of t = last (contexts b)))"
  by (auto simp add: onContextCreated_def Let_def contexts_def browserContexts_def at_last_def
      new_BrowsingContext_def truthy_def AList.update_conv' split: option.splits sum.splits)

theorem onContextCreated_target_kind_witness:
  "contexts new_browser \<noteq> []
   \<and> map_of (priv_targets (snd (onContextCreated new_browser (page_info ''page'')))) ''page'' =
       Some (BiDiPageTarget (defaultBrowserContext new_browser) ''page'')
   \<and> map_of (priv_targets (snd (onContextCreated new_browser (frame_info ''frame'' ''page''))))
       ''frame'' =
       Some (BiDiTarget (defaultBrowserContext new_browser) ''frame'')"
  using onContextCreated_target_kind [of new_browser "page_info ''page''"]
    onContextCreated_target_kind [of new_browser "frame_info ''frame'' ''page''"]
  by (simp add: handler_defs session_defs contexts_def defaultBrowserContext_def)

text \<open>
  C7.  If \<^verbatim>\<open>session.new\<close> fails, the failure does not reach the caller.  An
  error that \<open>create\<close> returns is the failure of the subscription or of the fetch of
  the tree, or comes from a nested context in the tree.  When the subscription is
  accepted and the tree of top-level contexts is fetched, \<open>create\<close> returns a
  usable Browser: its name and version are the empty string, so \<open>version\<close> is "/";
  it is connected as the connection was; it has sent \<^verbatim>\<open>session.new\<close>, the
  subscription to the three base modules and the six entries of the list of debug
  events, and the fetch of the tree; its four handlers are registered; its Browser
  Context collection holds the default context; and its registry, the index of the
  connection and the emitted events have one page target, one context and one pair
  of "target created" for each context of the tree, in the order of the tree.
\<close>

theorem create_negotiation_failure:
  assumes "session_new (opt_connection opts) (opt_ignoreHTTPSErrors opts) = Inl err"
  shows "(\<forall>b. create opts = Inr b \<longrightarrow>
            priv_browserName b = [] \<and> priv_browserVersion b = [] \<and> version b = ''/'')
         \<and> (\<forall>e c. create opts = Inl (e, c) \<longrightarrow>
               session_subscribe (opt_connection opts)
                 [''browsingContext'', ''network'', ''log'',
                  ''cdp.Debugger.scriptParsed'', ''cdp.CSS.styleSheetAdded'',
                  ''cdp.Runtime.executionContextsCleared'', ''cdp.Tracing.tracingComplete'',
                  ''cdp.Network.requestWillBeSent'', ''cdp.Debugger.scriptParsed''] = Inl e
               \<or> browsingContext_getTree (opt_connection opts) = Inl e
               \<or> (\<exists>es. browsingContext_getTree (opt_connection opts) = Inr es
                        \<and> (\<exists>x \<in> set es. truthy (ev_parent x))))
         \<and> (\<forall>u es.
               session_subscribe (opt_connection opts)
                 [''browsingContext'', ''network'', ''log'',
                  ''cdp.Debugger.scriptParsed'', ''cdp.CSS.styleSheetAdded'',
                  ''cdp.Runtime.executionContextsCleared'', ''cdp.Tracing.tracingComplete'',
                  ''cdp.Network.requestWillBeSent'', ''cdp.Debugger.scriptParsed''] = Inr u
               \<and> browsingContext_getTree (opt_connection opts) = Inr es
               \<and> (\<forall>x \<in> set es. \<not> truthy (ev_parent x)) \<longrightarrow>
               (\<exists>b. create opts = Inr b
               \<and> priv_browserName b = [] \<and> priv_browserVersion b = [] \<and> version b = ''/''
               \<and> isConnected b = (\<not> closed (opt_connection opts))
               \<and> sent (priv_connection b) =
                   sent (opt_connection opts) @
                   [SessionNew (opt_ignoreHTTPSErrors opts),
                    SessionSubscribe
                      [''browsingContext'', ''network'', ''log'',
                      ''cdp.Debugger.scriptParsed'', ''cdp.CSS.styleSheetAdded'',
                      ''cdp.Runtime.executionContextsCleared'', ''cdp.Tracing.tracingComplete'',
                      ''cdp.Network.requestWillBeSent'', ''cdp.Debugger.scriptParsed''],
                    BrowsingContextGetTree]
               \<and> listeners (priv_connection b) =
                   listeners (opt_connection opts) @
                   [(''browsingContext.contextCreated'', Bound_onContextCreated),
                 (''browsingContext.contextDestroyed'', Bound_onContextDestroyed),
                 (''browsingContext.fragmentNavigated'',
                  Bound_onContextNavigation_fragmentNavigated),
                 (''browsingContext.navigationStarted'',
                  Bound_onContextNavigation_navigationStarted)]
               \<and> contexts b = [defaultBrowserContext b]
               \<and> defaultBrowserContext b =
                   \<lparr>ref = 1, ctx_defaultViewport = opt_defaultViewport opts, isDefault = True\<rparr>
               \<and> priv_targets b =
                   foldl (\<lambda>al x. AList.update (ev_context x)
                            (BiDiPageTarget (defaultBrowserContext b) (ev_context x)) al)
                     [] es
               \<and> browsingContexts (priv_connection b) =
                   foldl (\<lambda>al x. AList.update (ev_context x) (new_BrowsingContext x) al)
                     (browsingContexts (opt_connection opts)) es
               \<and> trace b =
                   concat (map (\<lambda>x.
                     [BrowserEmit TargetCreated
                        (BiDiPageTarget (defaultBrowserContext b) (ev_context x)),
                      BrowserContextEmit (ref (defaultBrowserContext b)) TargetCreated
                        (BiDiPageTarget (defaultBrowserContext b) (ev_context x))]) es)
               \<and> fst ` set (priv_targets b) = ev_context ` set es
               \<and> (\<forall>p \<in> set (priv_targets b). is_page_target (snd p))))"
proof -
  let ?c = "opt_connection opts"
  let ?L = "[''browsingContext'', ''network'', ''log'',
       ''cdp.Debugger.scriptParsed'', ''cdp.CSS.styleSheetAdded'',
       ''cdp.Runtime.executionContextsCleared'', ''cdp.Tracing.tracingComplete'',
       ''cdp.Network.requestWillBeSent'', ''cdp.Debugger.scriptParsed'']"
  let ?c1 = "?c\<lparr>sent := sent ?c @ [SessionNew (opt_ignoreHTTPSErrors opts)]\<rparr>"
  let ?c2 = "?c1\<lparr>sent := sent ?c1 @ [SessionSubscribe ?L]\<rparr>"
  let ?b = "Browser_constructor (opts\<lparr>opt_connection := ?c2\<rparr>) [] []"
  let ?b1 = "?b\<lparr>priv_connection :=
                  (priv_connection ?b)\<lparr>sent := sent (priv_connection ?b) @
                                              [BrowsingContextGetTree]\<rparr>\<rparr>"
  have sub: "subscription [] = ?L"
    by (simp add: subscription_def toLocaleLowerCase_def subscribeModules_def
        subscribeCdpEvents_def)
  have names: "priv_browserName (snd (getTree ?b)) = []
      \<and> priv_browserVersion (snd (getTree ?b)) = []"
    by (simp only: getTree_names) (simp add: Browser_constructor_def Let_def)
  have unfolded: "create opts =
      (case session_subscribe ?c ?L of
         Inl e \<Rightarrow> Inl (e, ?c2)
       | Inr u \<Rightarrow> (case getTree ?b of
                     (Some e, b') \<Rightarrow> Inl (e, priv_connection b')
                   | (None, b') \<Rightarrow> Inr b'))"
    using assms
    by (simp add: create_def send_session_new_def send_session_subscribe_def Let_def
        negotiated_browserName_def negotiated_browserVersion_def sub split: sum.splits)
  have tree: "browsingContext_getTree (priv_connection ?b) = browsingContext_getTree ?c"
    by (simp add: constructor_getTree)
  have first: "\<forall>b. create opts = Inr b \<longrightarrow>
            priv_browserName b = [] \<and> priv_browserVersion b = [] \<and> version b = ''/''"
  proof (intro allI impI)
    fix b assume "create opts = Inr b"
    then have "b = snd (getTree ?b)"
      unfolding unfolded by (auto split: sum.splits prod.splits option.splits)
    then show "priv_browserName b = [] \<and> priv_browserVersion b = [] \<and> version b = ''/''"
      using names by (simp add: version_def)
  qed
  have third: "\<exists>b. create opts = Inr b
               \<and> priv_browserName b = [] \<and> priv_browserVersion b = [] \<and> version b = ''/''
               \<and> isConnected b = (\<not> closed (opt_connection opts))
               \<and> sent (priv_connection b) =
                   sent (opt_connection opts) @
                   [SessionNew (opt_ignoreHTTPSErrors opts),
                    SessionSubscribe
                      [''browsingContext'', ''network'', ''log'',
                      ''cdp.Debugger.scriptParsed'', ''cdp.CSS.styleSheetAdded'',
                      ''cdp.Runtime.executionContextsCleared'', ''cdp.Tracing.tracingComplete'',
                      ''cdp.Network.requestWillBeSent'', ''cdp.Debugger.scriptParsed''],
                    BrowsingContextGetTree]
               \<and> listeners (priv_connection b) =
                   listeners (opt_connection opts) @
                   [(''browsingContext.contextCreated'', Bound_onContextCreated),
                 (''browsingContext.contextDestroyed'', Bound_onContextDestroyed),
                 (''browsingContext.fragmentNavigated'',
                  Bound_onContextNavigation_fragmentNavigated),
                 (''browsingContext.navigationStarted'',
                  Bound_onContextNavigation_navigationStarted)]
               \<and> contexts b = [defaultBrowserContext b]
               \<and> defaultBrowserContext b =
                   \<lparr>ref = 1, ctx_defaultViewport = opt_defaultViewport opts, isDefault = True\<rparr>
               \<and> priv_targets b =
                   foldl (\<lambda>al x. AList.update (ev_context x)
                            (BiDiPageTarget (defaultBrowserContext b) (ev_context x)) al)
                     [] es
               \<and> browsingContexts (priv_connection b) =
                   foldl (\<lambda>al x. AList.update (ev_context x) (new_BrowsingContext x) al)
                     (browsingContexts (opt_connection opts)) es
               \<and> trace b =
                   concat (map (\<lambda>x.
                     [BrowserEmit TargetCreated
                        (BiDiPageTarget (defaultBrowserContext b) (ev_context x)),
                      BrowserContextEmit (ref (defaultBrowserContext b)) TargetCreated
                        (BiDiPageTarget (defaultBrowserContext b) (ev_context x))]) es)
               \<and> fst ` set (priv_targets b) = ev_context ` set es
               \<and> (\<forall>p \<in> set (priv_targets b). is_page_target (snd p))"
    if u: "session_subscribe ?c ?L = Inr u"
      and es: "browsingContext_getTree ?c = Inr es"
      and top: "\<forall>x \<in> set es. \<not> truthy (ev_parent x)"
    for u es
  proof -
    let ?r = "snd (onContextCreated_each ?b1 es)"
    have g: "getTree ?b = onContextCreated_each ?b1 es"
      using es tree by (simp add: getTree_def send_browsingContext_getTree_def)
    have c1: "contexts ?b1 = [priv_defaultContext ?b1]"
      by (simp add: Browser_constructor_def Let_def contexts_def)
    then have ne: "contexts ?b1 \<noteq> []" by simp
    have la: "last (contexts ?b1) = priv_defaultContext ?b1" unfolding c1 by (rule last.simps [THEN trans]) simp
    have ok: "fst (onContextCreated_each ?b1 es) = None"
      using ne top by (rule each_top_level)
    then have res: "create opts = Inr ?r"
      unfolding unfolded using u g by (cases "onContextCreated_each ?b1 es") simp
    have seeds: "priv_targets ?r =
           foldl (\<lambda>al e. AList.update (ev_context e)
                    (BiDiPageTarget (last (contexts ?b1)) (ev_context e)) al)
             (priv_targets ?b1) es
         \<and> browsingContexts (priv_connection ?r) =
           foldl (\<lambda>al e. AList.update (ev_context e) (new_BrowsingContext e) al)
             (browsingContexts (priv_connection ?b1)) es
         \<and> trace ?r =
           trace ?b1 @
           concat (map (\<lambda>e.
             [BrowserEmit TargetCreated (BiDiPageTarget (last (contexts ?b1)) (ev_context e)),
              BrowserContextEmit (ref (last (contexts ?b1))) TargetCreated
                (BiDiPageTarget (last (contexts ?b1)) (ev_context e))]) es)
         \<and> contexts ?r = contexts ?b1
         \<and> priv_defaultContext ?r = priv_defaultContext ?b1
         \<and> listeners (priv_connection ?r) = listeners (priv_connection ?b1)
         \<and> closed (priv_connection ?r) = closed (priv_connection ?b1)"
      using ne top by (rule each_top_level_seeds)
    have d: "defaultBrowserContext ?r = priv_defaultContext ?b1"
      using seeds by (simp add: defaultBrowserContext_def)
    have t0: "priv_targets ?b1 = []" by (simp add: Browser_constructor_def Let_def)
    have r0: "trace ?b1 = []" by (simp add: Browser_constructor_def Let_def)
    have i0: "browsingContexts (priv_connection ?b1) = browsingContexts ?c"
      by (simp add: Browser_constructor_def Let_def connectionEventHandlers_def on_def)
    have k0: "closed (priv_connection ?b1) = closed ?c"
      by (simp add: Browser_constructor_def Let_def connectionEventHandlers_def on_def)
    have l0: "listeners (priv_connection ?b1) = listeners ?c @
                   [(''browsingContext.contextCreated'', Bound_onContextCreated),
                 (''browsingContext.contextDestroyed'', Bound_onContextDestroyed),
                 (''browsingContext.fragmentNavigated'',
                  Bound_onContextNavigation_fragmentNavigated),
                 (''browsingContext.navigationStarted'',
                  Bound_onContextNavigation_navigationStarted)]"
      by (simp add: Browser_constructor_def Let_def connectionEventHandlers_def on_def)
    have s0: "sent (priv_connection ?r) =
        sent ?c @ [SessionNew (opt_ignoreHTTPSErrors opts), SessionSubscribe ?L,
                   BrowsingContextGetTree]"
      by (simp only: each_sent) (simp add: constructor_sent)
    have def: "priv_defaultContext ?b1 =
        \<lparr>ref = 1, ctx_defaultViewport = opt_defaultViewport opts, isDefault = True\<rparr>"
      by (simp add: Browser_constructor_def Let_def)
    have nm: "priv_browserName ?r = [] \<and> priv_browserVersion ?r = []"
      using names g by simp
    have tg: "priv_targets ?r =
           foldl (\<lambda>al x. AList.update (ev_context x)
                    (BiDiPageTarget (defaultBrowserContext ?r) (ev_context x)) al) [] es"
      using seeds unfolding d la t0 by blast
    have keys: "fst ` set (priv_targets ?r) = ev_context ` set es"
      unfolding tg by (simp add: seeded_keys)
    have pages: "\<forall>p \<in> set (priv_targets ?r). is_page_target (snd p)"
      unfolding tg by (rule seeded_pages) simp
    have ix: "browsingContexts (priv_connection ?r) =
                   foldl (\<lambda>al x. AList.update (ev_context x) (new_BrowsingContext x) al)
                     (browsingContexts ?c) es"
      using seeds unfolding i0 by blast
    have tr: "trace ?r =
                   concat (map (\<lambda>x.
                     [BrowserEmit TargetCreated
                        (BiDiPageTarget (defaultBrowserContext ?r) (ev_context x)),
                      BrowserContextEmit (ref (defaultBrowserContext ?r)) TargetCreated
                        (BiDiPageTarget (defaultBrowserContext ?r) (ev_context x))]) es)"
      using seeds unfolding d la r0 by simp
    have cs: "contexts ?r = [defaultBrowserContext ?r]"
      using seeds unfolding d c1 by blast
    have ic: "isConnected ?r = (\<not> closed ?c)"
      using seeds unfolding k0 by (simp add: isConnected_def)
    have ls: "listeners (priv_connection ?r) = listeners ?c @
                   [(''browsingContext.contextCreated'', Bound_onContextCreated),
                 (''browsingContext.contextDestroyed'', Bound_onContextDestroyed),
                 (''browsingContext.fragmentNavigated'',
                  Bound_onContextNavigation_fragmentNavigated),
                 (''browsingContext.navigationStarted'',
                  Bound_onContextNavigation_navigationStarted)]"
      using seeds unfolding l0 by blast
    have df: "defaultBrowserContext ?r =
        \<lparr>ref = 1, ctx_defaultViewport = opt_defaultViewport opts, isDefault = True\<rparr>"
      unfolding d by (rule def)
    have vs: "version ?r = ''/''" using nm by (simp add: version_def)
    show ?thesis
      using res nm vs ic s0 ls cs df tg ix tr keys pages by blast
  qed
  have second: "\<forall>e c. create opts = Inl (e, c) \<longrightarrow>
               session_subscribe ?c ?L = Inl e
               \<or> browsingContext_getTree ?c = Inl e
               \<or> (\<exists>es. browsingContext_getTree ?c = Inr es
                        \<and> (\<exists>x \<in> set es. truthy (ev_parent x)))"
  proof (intro allI impI)
    fix e c assume fail: "create opts = Inl (e, c)"
    show "session_subscribe ?c ?L = Inl e
               \<or> browsingContext_getTree ?c = Inl e
               \<or> (\<exists>es. browsingContext_getTree ?c = Inr es
                        \<and> (\<exists>x \<in> set es. truthy (ev_parent x)))"
    proof (cases "session_subscribe ?c ?L")
      case (Inl e')
      then show ?thesis using fail unfolding unfolded by simp
    next
      case (Inr u)
      show ?thesis
      proof (cases "browsingContext_getTree ?c")
        case (Inl e')
        then have "fst (getTree ?b) = Some e'" using tree by (intro getTree_fails) simp
        then have "e = e'"
          using fail Inr unfolding unfolded by (cases "getTree ?b") auto
        then show ?thesis using Inl by simp
      next
        case es: (Inr es)
        show ?thesis
        proof (cases "\<forall>x \<in> set es. \<not> truthy (ev_parent x)")
          case True
          then have "\<exists>b. create opts = Inr b" using third [OF Inr es] by blast
          then show ?thesis using fail by simp
        next
          case False
          then show ?thesis using es by blast
        qed
      qed
    qed
  qed
  show ?thesis using first second third by blast
qed

theorem create_negotiation_failure_witness:
  "session_new
     (opt_connection
        (options_for
           (fresh_connection (Inl (ProtocolError ''unknown command''))
              (Inr [page_info ''A'', page_info ''B'']))))
     (opt_ignoreHTTPSErrors
        (options_for
           (fresh_connection (Inl (ProtocolError ''unknown command''))
              (Inr [page_info ''A'', page_info ''B''])))) =
     Inl (ProtocolError ''unknown command'')
   \<and> map_sum fst version
       (create
          (options_for
             (fresh_connection (Inl (ProtocolError ''unknown command''))
                (Inr [page_info ''A'', page_info ''B''])))) =
     Inr ''/''
   \<and> map_sum fst priv_targets
       (create
          (options_for
             (fresh_connection (Inl (ProtocolError ''unknown command''))
                (Inr [page_info ''A'', page_info ''B''])))) =
     Inr [(''A'', BiDiPageTarget \<lparr>ref = 1, ctx_defaultViewport = None, isDefault = True\<rparr> ''A''),
          (''B'', BiDiPageTarget \<lparr>ref = 1, ctx_defaultViewport = None, isDefault = True\<rparr> ''B'')]
   \<and> map_sum fst (\<lambda>b. sent (priv_connection b))
       (create
          (options_for
             (fresh_connection (Inl (ProtocolError ''unknown command''))
                (Inr [page_info ''A'', page_info ''B''])))) =
     Inr [SessionNew None,
          SessionSubscribe
            [''browsingContext'', ''network'', ''log'',
             ''cdp.Debugger.scriptParsed'', ''cdp.CSS.styleSheetAdded'',
             ''cdp.Runtime.executionContextsCleared'', ''cdp.Tracing.tracingComplete'',
             ''cdp.Network.requestWillBeSent'', ''cdp.Debugger.scriptParsed''],
          BrowsingContextGetTree]
   \<and> map_sum fst isConnected
       (create
          (options_for
             (fresh_connection (Inl (ProtocolError ''unknown command''))
                (Inr [page_info ''A'', page_info ''B''])))) =
     Inr True"
proof -
  let ?opts = "options_for
             (fresh_connection (Inl (ProtocolError ''unknown command''))
                (Inr [page_info ''A'', page_info ''B'']))"
  let ?L = "[''browsingContext'', ''network'', ''log'',
             ''cdp.Debugger.scriptParsed'', ''cdp.CSS.styleSheetAdded'',
             ''cdp.Runtime.executionContextsCleared'', ''cdp.Tracing.tracingComplete'',
             ''cdp.Network.requestWillBeSent'', ''cdp.Debugger.scriptParsed'']"
  have n: "session_new (opt_connection ?opts) (opt_ignoreHTTPSErrors ?opts) =
      Inl (ProtocolError ''unknown command'')"
    by (simp add: options_for_def fresh_connection_def)
  have s: "session_subscribe (opt_connection ?opts) ?L = Inr ()"
    by (simp add: options_for_def fresh_connection_def)
  have g: "browsingContext_getTree (opt_connection ?opts) = Inr [page_info ''A'', page_info ''B'']"
    by (simp add: options_for_def fresh_connection_def)
  have t: "\<forall>x \<in> set [page_info ''A'', page_info ''B'']. \<not> truthy (ev_parent x)"
    by (simp add: page_info_def truthy_def)
  obtain b where b: "create ?opts = Inr b"
    and v: "version b = ''/''"
    and c: "isConnected b = (\<not> closed (opt_connection ?opts))"
    and se: "sent (priv_connection b) =
        sent (opt_connection ?opts) @
        [SessionNew (opt_ignoreHTTPSErrors ?opts), SessionSubscribe ?L, BrowsingContextGetTree]"
    and d: "defaultBrowserContext b =
        \<lparr>ref = 1, ctx_defaultViewport = opt_defaultViewport ?opts, isDefault = True\<rparr>"
    and tg: "priv_targets b =
        foldl (\<lambda>al x. AList.update (ev_context x)
                 (BiDiPageTarget (defaultBrowserContext b) (ev_context x)) al)
          [] [page_info ''A'', page_info ''B'']"
    using create_negotiation_failure [OF n] s g t by blast
  have "priv_targets b =
     [(''A'', BiDiPageTarget \<lparr>ref = 1, ctx_defaultViewport = None, isDefault = True\<rparr> ''A''),
      (''B'', BiDiPageTarget \<lparr>ref = 1, ctx_defaultViewport = None, isDefault = True\<rparr> ''B'')]"
    unfolding tg d by (simp add: page_info_def options_for_def)
  moreover have "sent (priv_connection b) =
      [SessionNew None, SessionSubscribe ?L, BrowsingContextGetTree]"
    unfolding se by (simp add: options_for_def fresh_connection_def)
  moreover have "isConnected b"
    unfolding c by (simp add: options_for_def fresh_connection_def)
  ultimately show ?thesis using n b v by simp
qed

text \<open>
  C8.  A context-destroyed event for an id without registered Target leaves the
  registry as it is and emits no "target destroyed".  When the connection resolves the
  id and its top-level ancestor, the handler emits the "destroyed" notification on
  that ancestor, and nothing else; when a lookup fails, the handler throws and
  changes nothing.
\<close>

theorem onContextDestroyed_without_target:
  assumes "map_of (priv_targets b) i = None"
  shows "priv_targets (snd (onContextDestroyed b i)) = priv_targets b
         \<and> (\<forall>ctx top.
               getBrowsingContext (priv_connection b) i = Inr ctx
               \<and> getTopLevelContext (priv_connection b) i = Inr top \<longrightarrow>
               onContextDestroyed b i =
                 (None, b\<lparr>trace := trace b @ [BrowsingContextEmit (bc_id top) Destroyed ctx]\<rparr>))
         \<and> (\<forall>err. getBrowsingContext (priv_connection b) i = Inl err
                   \<or> getTopLevelContext (priv_connection b) i = Inl err \<longrightarrow>
               fst (onContextDestroyed b i) \<noteq> None \<and> snd (onContextDestroyed b i) = b)"
  using assms
  by (auto simp add: onContextDestroyed_def Let_def delete_absent split: sum.splits)

theorem onContextDestroyed_without_target_witness:
  "map_of (priv_targets browser_after_page) ''page'' = None
   \<and> getBrowsingContext (priv_connection browser_after_page) ''page'' =
       Inr (new_BrowsingContext (page_info ''page''))
   \<and> getTopLevelContext (priv_connection browser_after_page) ''page'' =
       Inr (new_BrowsingContext (page_info ''page''))
   \<and> onContextDestroyed browser_after_page ''page'' =
       (None,
        browser_after_page
          \<lparr>trace := trace browser_after_page @
             [BrowsingContextEmit ''page'' Destroyed (new_BrowsingContext (page_info ''page''))]\<rparr>)"
proof -
  have t: "map_of (priv_targets browser_after_page) ''page'' = None"
    by (simp add: browser_after_page_def handler_defs session_defs)
  have g: "getBrowsingContext (priv_connection browser_after_page) ''page'' =
       Inr (new_BrowsingContext (page_info ''page''))"
    by (simp add: browser_after_page_def handler_defs session_defs)
  have l: "getTopLevelContext (priv_connection browser_after_page) ''page'' =
       Inr (new_BrowsingContext (page_info ''page''))"
    by (simp add: browser_after_page_def handler_defs session_defs)
  show ?thesis
    using t g l onContextDestroyed_without_target [OF t]
    by (simp add: new_BrowsingContext_def page_info_def)
qed

text \<open>
  The notification is not emitted for every such event: on a new Browser, the id of a
  context that was never created is unknown to the connection, and the handler
  throws without emitting anything.
\<close>

theorem onContextDestroyed_unknown_context:
  "map_of (priv_targets new_browser) ''ctx'' = None
   \<and> onContextDestroyed new_browser ''ctx'' = (Some (NoSuchBrowsingContext ''ctx''), new_browser)
   \<and> trace new_browser = []"
  by (simp add: onContextDestroyed_def new_browser_def Browser_constructor_def Let_def
      options_for_def fresh_connection_def connectionEventHandlers_def on_def getBrowsingContext_def)

text \<open>
  C9.  The array that \<open>targets\<close> returns is a new one holding the Targets of the
  registry: whatever a caller does to it, the registry and the Browser Context
  collection stay as they were, and the next call of \<open>targets\<close> returns the same
  Targets again.  Whatever a caller does to the array that \<open>browserContexts\<close>
  returns, the registry and what \<open>defaultBrowserContext\<close> returns stay as they were.
\<close>

theorem arrays_handed_out:
  "priv_targets (mutate_target_array (fst (targets b)) xs (snd (targets b))) = priv_targets b
   \<and> contexts (mutate_target_array (fst (targets b)) xs (snd (targets b))) = contexts b
   \<and> target_arrays (snd (targets b)) (fst (targets b)) = map snd (priv_targets b)
   \<and> target_arrays
       (snd (targets (mutate_target_array (fst (targets b)) xs (snd (targets b)))))
       (fst (targets (mutate_target_array (fst (targets b)) xs (snd (targets b))))) =
     map snd (priv_targets b)
   \<and> priv_targets (mutate_context_array (browserContexts b) ys b) = priv_targets b
   \<and> defaultBrowserContext (mutate_context_array (browserContexts b) ys b) = defaultBrowserContext b"
  by (simp add: targets_def mutate_target_array_def mutate_context_array_def contexts_def
      browserContexts_def defaultBrowserContext_def Let_def)

text \<open>
  The array that \<open>browserContexts\<close> returns is the collection itself: a caller that
  empties it empties the collection of a new Browser.
\<close>

theorem browserContexts_mutable:
  "contexts new_browser = [defaultBrowserContext new_browser]
   \<and> contexts (mutate_context_array (browserContexts new_browser) [] new_browser) = []"
  by (simp add: new_browser_def Browser_constructor_def Let_def contexts_def
      defaultBrowserContext_def mutate_context_array_def browserContexts_def)

text \<open>
  C10.  The constructor registers the four connection event handlers, for
  \<^verbatim>\<open>browsingContext.contextCreated\<close>, \<^verbatim>\<open>browsingContext.contextDestroyed\<close>,
  \<^verbatim>\<open>browsingContext.fragmentNavigated\<close> and \<^verbatim>\<open>browsingContext.navigationStarted\<close>.
  Every call of \<open>close\<close>, on a closed connection as on an open one, unregisters
  these four and no other listener.  The handlers are made by the constructor, so the
  connection that it is given does not carry them yet; then, whatever happened to the
  Browser since its construction, none of the four is registered on the connection
  when \<open>close\<close> returns.
\<close>

theorem close_unregisters_handlers:
  "listeners (priv_connection (Browser_constructor opts n v)) =
     listeners (opt_connection opts) @
     [(''browsingContext.contextCreated'', Bound_onContextCreated),
      (''browsingContext.contextDestroyed'', Bound_onContextDestroyed),
      (''browsingContext.fragmentNavigated'', Bound_onContextNavigation_fragmentNavigated),
      (''browsingContext.navigationStarted'', Bound_onContextNavigation_navigationStarted)]
   \<and> listeners (priv_connection (snd (close b))) =
       remove1 (''browsingContext.navigationStarted'', Bound_onContextNavigation_navigationStarted)
         (remove1 (''browsingContext.fragmentNavigated'', Bound_onContextNavigation_fragmentNavigated)
           (remove1 (''browsingContext.contextDestroyed'', Bound_onContextDestroyed)
             (remove1 (''browsingContext.contextCreated'', Bound_onContextCreated)
               (listeners (priv_connection b)))))
   \<and> ((''browsingContext.contextCreated'', Bound_onContextCreated)
          \<notin> set (listeners (opt_connection opts))
        \<and> (''browsingContext.contextDestroyed'', Bound_onContextDestroyed)
          \<notin> set (listeners (opt_connection opts))
        \<and> (''browsingContext.fragmentNavigated'', Bound_onContextNavigation_fragmentNavigated)
          \<notin> set (listeners (opt_connection opts))
        \<and> (''browsingContext.navigationStarted'', Bound_onContextNavigation_navigationStarted)
          \<notin> set (listeners (opt_connection opts))
        \<longrightarrow>
        (''browsingContext.contextCreated'', Bound_onContextCreated)
          \<notin> set (listeners (priv_connection
                  (snd (close (perform_all (Browser_constructor opts n v) ops)))))
        \<and> (''browsingContext.contextDestroyed'', Bound_onContextDestroyed)
          \<notin> set (listeners (priv_connection
                  (snd (close (perform_all (Browser_constructor opts n v) ops)))))
        \<and> (''browsingContext.fragmentNavigated'', Bound_onContextNavigation_fragmentNavigated)
          \<notin> set (listeners (priv_connection
                  (snd (close (perform_all (Browser_constructor opts n v) ops)))))
        \<and> (''browsingContext.navigationStarted'', Bound_onContextNavigation_navigationStarted)
          \<notin> set (listeners (priv_connection
                  (snd (close (perform_all (Browser_constructor opts n v) ops))))))"
proof -
  let ?after = "listeners (priv_connection
                  (snd (close (perform_all (Browser_constructor opts n v) ops))))"
  have reach: "\<forall>eh \<in> set connectionEventHandlers. eh \<notin> set ?after"
    if clean: "\<forall>eh \<in> set connectionEventHandlers. eh \<notin> set (listeners (opt_connection opts))"
  proof -
    have "registered_at_most_once (priv_connection (Browser_constructor opts n v))"
      using clean by (rule constructor_registers_once)
    then have "registered_at_most_once
        (priv_connection (perform_all (Browser_constructor opts n v) ops))"
      by (rule perform_all_registered)
    then show ?thesis by (rule close_unregisters)
  qed
  have third: "(''browsingContext.contextCreated'', Bound_onContextCreated)
          \<notin> set (listeners (opt_connection opts))
        \<and> (''browsingContext.contextDestroyed'', Bound_onContextDestroyed)
          \<notin> set (listeners (opt_connection opts))
        \<and> (''browsingContext.fragmentNavigated'', Bound_onContextNavigation_fragmentNavigated)
          \<notin> set (listeners (opt_connection opts))
        \<and> (''browsingContext.navigationStarted'', Bound_onContextNavigation_navigationStarted)
          \<notin> set (listeners (opt_connection opts))
        \<longrightarrow>
        (''browsingContext.contextCreated'', Bound_onContextCreated) \<notin> set ?after
        \<and> (''browsingContext.contextDestroyed'', Bound_onContextDestroyed) \<notin> set ?after
        \<and> (''browsingContext.fragmentNavigated'', Bound_onContextNavigation_fragmentNavigated)
          \<notin> set ?after
        \<and> (''browsingContext.navigationStarted'', Bound_onContextNavigation_navigationStarted)
          \<notin> set ?after"
  proof
    assume h: "(''browsingContext.contextCreated'', Bound_onContextCreated)
          \<notin> set (listeners (opt_connection opts))
        \<and> (''browsingContext.contextDestroyed'', Bound_onContextDestroyed)
          \<notin> set (listeners (opt_connection opts))
        \<and> (''browsingContext.fragmentNavigated'', Bound_onContextNavigation_fragmentNavigated)
          \<notin> set (listeners (opt_connection opts))
        \<and> (''browsingContext.navigationStarted'', Bound_onContextNavigation_navigationStarted)
          \<notin> set (listeners (opt_connection opts))"
    then have "\<forall>eh \<in> set connectionEventHandlers. eh \<notin> set (listeners (opt_connection opts))"
      by (simp add: connectionEventHandlers_def)
    then have "\<forall>eh \<in> set connectionEventHandlers. eh \<notin> set ?after" by (rule reach)
    then show "(''browsingContext.contextCreated'', Bound_onContextCreated) \<notin> set ?after
        \<and> (''browsingContext.contextDestroyed'', Bound_onContextDestroyed) \<notin> set ?after
        \<and> (''browsingContext.fragmentNavigated'', Bound_onContextNavigation_fragmentNavigated)
          \<notin> set ?after
        \<and> (''browsingContext.navigationStarted'', Bound_onContextNavigation_navigationStarted)
          \<notin> set ?after"
      by (simp add: connectionEventHandlers_def)
  qed
  show ?thesis
    using constructor_listeners [of opts n v] close_removes_four [of b] third by blast
qed

theorem close_unregisters_handlers_witness:
  "listeners (priv_connection new_browser) =
     [(''browsingContext.contextCreated'', Bound_onContextCreated),
      (''browsingContext.contextDestroyed'', Bound_onContextDestroyed),
      (''browsingContext.fragmentNavigated'', Bound_onContextNavigation_fragmentNavigated),
      (''browsingContext.navigationStarted'', Bound_onContextNavigation_navigationStarted)]
   \<and> listeners (priv_connection (snd (close new_browser))) = []
   \<and> closed (priv_connection
        (perform_all new_browser [Deliver (ContextCreated (page_info ''page'')), Close]))
   \<and> (''browsingContext.contextCreated'', Bound_onContextCreated)
        \<notin> set (listeners (priv_connection
                (snd (close (perform_all new_browser
                   [Deliver (ContextCreated (page_info ''page'')), Close])))))
   \<and> (''browsingContext.navigationStarted'', Bound_onContextNavigation_navigationStarted)
        \<notin> set (listeners (priv_connection
                (snd (close (perform_all new_browser
                   [Deliver (ContextCreated (page_info ''page'')), Close])))))"
proof -
  let ?opts = "options_for (fresh_connection (Inl (ProtocolError ''unknown command'')) (Inr []))"
  let ?ops = "[Deliver (ContextCreated (page_info ''page'')), Close]"
  note inst = close_unregisters_handlers [of ?opts "[]" "[]" new_browser ?ops]
  have clean: "listeners (opt_connection ?opts) = []"
    by (simp add: options_for_def fresh_connection_def)
  have i: "listeners (priv_connection new_browser) =
     [(''browsingContext.contextCreated'', Bound_onContextCreated),
      (''browsingContext.contextDestroyed'', Bound_onContextDestroyed),
      (''browsingContext.fragmentNavigated'', Bound_onContextNavigation_fragmentNavigated),
      (''browsingContext.navigationStarted'', Bound_onContextNavigation_navigationStarted)]"
    using inst unfolding new_browser_def by (simp add: clean)
  have "listeners (priv_connection (snd (close new_browser))) =
       remove1 (''browsingContext.navigationStarted'', Bound_onContextNavigation_navigationStarted)
         (remove1 (''browsingContext.fragmentNavigated'', Bound_onContextNavigation_fragmentNavigated)
           (remove1 (''browsingContext.contextDestroyed'', Bound_onContextDestroyed)
             (remove1 (''browsingContext.contextCreated'', Bound_onContextCreated)
               (listeners (priv_connection new_browser)))))"
    using inst by blast
  then have l: "listeners (priv_connection (snd (close new_browser))) = []"
    unfolding i by simp
  have r: "(''browsingContext.contextCreated'', Bound_onContextCreated)
        \<notin> set (listeners (priv_connection (snd (close (perform_all new_browser ?ops)))))
   \<and> (''browsingContext.navigationStarted'', Bound_onContextNavigation_navigationStarted)
        \<notin> set (listeners (priv_connection (snd (close (perform_all new_browser ?ops)))))"
    using inst unfolding new_browser_def by (simp add: clean)
  have c: "closed (priv_connection (perform_all new_browser ?ops))"
    by (simp add: perform_all_def deliver_def onContextCreated_def close_def page_info_def
        new_BrowsingContext_def registerBrowsingContexts_def browserContexts_def at_last_def
        truthy_def session_defs)
  show ?thesis using i l r c by simp
qed

end
